theory Spec2Isabelle
  imports Complex_Main "HOL-Library.While_Combinator" "HOL-Library.Multiset" "HOL-Library.Log_Nat"
begin

section \<open>JavaScript numbers and values\<close>

text \<open>
  A JavaScript number is an IEEE 754 binary64 value: a finite number, NaN, +Infinity
  or -Infinity. A finite number is modelled by the real it denotes, and every
  arithmetic operation rounds its exact result to binary64 (\<open>binary64\<close> below: to the
  nearest representable number, ties to the even significand, subnormal numbers
  included, +Infinity or -Infinity beyond the largest finite number). The two zeros
  are one number here: \<open>-0\<close> and \<open>0\<close> compare equal in JavaScript and differ only as a
  divisor, so a quotient by \<open>-0\<close> has the sign of the quotient by \<open>0\<close> in this model.
\<close>

datatype jsnum = Fin real | PInf | NInf | NaN

text \<open>Rounding a real to the nearest integer, a tie to the even one.\<close>

definition round_even :: "real \<Rightarrow> int" where
  "round_even t =
     (let n = \<lfloor>t\<rfloor>; d = t - of_int n
      in if d < 1 / 2 then n else if 1 / 2 < d then n + 1 else if even n then n else n + 1)"

text \<open>The binary exponent of a positive real \<open>x\<close>: the \<open>e\<close> with \<open>2^e \<le> x < 2^(e+1)\<close>.\<close>

definition exponent :: "real \<Rightarrow> int" where
  "exponent x = (if 1 \<le> x then bitlen \<lfloor>x\<rfloor> - 1 else - bitlen (\<lceil>1 / x\<rceil> - 1))"

definition overflow :: "real \<Rightarrow> jsnum" where
  "overflow x = (if x < 0 then NInf else PInf)"

text \<open>
  Rounding to binary64. The significand has 53 bits, so the numbers with exponent \<open>e\<close>
  are the multiples of \<open>2^(e-52)\<close>; below the exponent -1022 the numbers are
  subnormal and stay multiples of \<open>2^(-1074)\<close>; a result of magnitude \<open>2^1024\<close> or more
  is an infinity. The constant 9007199254740992 is \<open>2^53\<close>.
\<close>

definition binary64 :: "real \<Rightarrow> jsnum" where
  "binary64 x =
     (if x = 0 then Fin 0
      else
        (let e = max (exponent \<bar>x\<bar>) (- 1022) in
         if 1023 < e then overflow x
         else
           (let q = 2 powi (e - 52);
                m = round_even (x / q)
            in if e = 1023 \<and> 9007199254740992 \<le> \<bar>m\<bar> then overflow x
               else Fin (of_int m * q))))"

text \<open>The largest finite binary64 number.\<close>

definition max_double :: real where
  "max_double = (2 ^ 53 - 1) * 2 ^ 971"

fun js_add :: "jsnum \<Rightarrow> jsnum \<Rightarrow> jsnum" where
  "js_add (Fin a) (Fin b) = binary64 (a + b)"
| "js_add NaN _ = NaN"
| "js_add _ NaN = NaN"
| "js_add PInf NInf = NaN"
| "js_add NInf PInf = NaN"
| "js_add PInf _ = PInf"
| "js_add _ PInf = PInf"
| "js_add NInf _ = NInf"
| "js_add _ NInf = NInf"

fun js_neg :: "jsnum \<Rightarrow> jsnum" where
  "js_neg (Fin a) = Fin (- a)"
| "js_neg PInf = NInf"
| "js_neg NInf = PInf"
| "js_neg NaN = NaN"

definition js_sub :: "jsnum \<Rightarrow> jsnum \<Rightarrow> jsnum" where
  "js_sub a b = js_add a (js_neg b)"

text \<open>The sign of a number that is not NaN: \<open>-1\<close>, \<open>0\<close> or \<open>1\<close>.\<close>

fun js_sign :: "jsnum \<Rightarrow> int" where
  "js_sign (Fin a) = (if a < 0 then - 1 else if a = 0 then 0 else 1)"
| "js_sign PInf = 1"
| "js_sign NInf = - 1"
| "js_sign NaN = 0"

definition signed_inf :: "int \<Rightarrow> jsnum" where
  "signed_inf s = (if s < 0 then NInf else PInf)"

fun js_mul :: "jsnum \<Rightarrow> jsnum \<Rightarrow> jsnum" where
  "js_mul (Fin a) (Fin b) = binary64 (a * b)"
| "js_mul NaN _ = NaN"
| "js_mul _ NaN = NaN"
| "js_mul a b = (if js_sign a * js_sign b = 0 then NaN else signed_inf (js_sign a * js_sign b))"

fun js_div :: "jsnum \<Rightarrow> jsnum \<Rightarrow> jsnum" where
  "js_div NaN _ = NaN"
| "js_div _ NaN = NaN"
| "js_div (Fin a) (Fin b) =
     (if b = 0 then (if a = 0 then NaN else signed_inf (js_sign (Fin a))) else binary64 (a / b))"
| "js_div (Fin a) _ = Fin 0"
| "js_div a (Fin b) = signed_inf (js_sign a * (if b < 0 then - 1 else 1))"
| "js_div _ _ = NaN"

text \<open>The relational operators: every comparison with NaN is false.\<close>

fun js_le :: "jsnum \<Rightarrow> jsnum \<Rightarrow> bool" where
  "js_le NaN _ = False"
| "js_le _ NaN = False"
| "js_le (Fin a) (Fin b) = (a \<le> b)"
| "js_le NInf _ = True"
| "js_le _ PInf = True"
| "js_le _ _ = False"

fun js_lt :: "jsnum \<Rightarrow> jsnum \<Rightarrow> bool" where
  "js_lt NaN _ = False"
| "js_lt _ NaN = False"
| "js_lt (Fin a) (Fin b) = (a < b)"
| "js_lt PInf _ = False"
| "js_lt _ NInf = False"
| "js_lt _ _ = True"

definition js_ge :: "jsnum \<Rightarrow> jsnum \<Rightarrow> bool" where
  "js_ge a b = js_le b a"

definition js_gt :: "jsnum \<Rightarrow> jsnum \<Rightarrow> bool" where
  "js_gt a b = js_lt b a"

text \<open>\<open>a != b\<close> on numbers: NaN differs from everything, itself included.\<close>

definition js_ne :: "jsnum \<Rightarrow> jsnum \<Rightarrow> bool" where
  "js_ne a b = (a = NaN \<or> b = NaN \<or> a \<noteq> b)"

text \<open>\<open>Math.max(a, b)\<close>: NaN if either argument is NaN.\<close>

definition Math_max :: "jsnum \<Rightarrow> jsnum \<Rightarrow> jsnum" where
  "Math_max a b = (if a = NaN \<or> b = NaN then NaN else if js_lt a b then b else a)"

text \<open>
  The values a caller can hand to a mutator: \<open>null\<close>, \<open>undefined\<close>, a number, or a value
  of another type, that is a string, a boolean, an array or a plain object. The
  mutators look at such a value only through its conversion to a number, so
  \<open>Other s n\<close> stands for the value that \<open>s\<close> describes and that \<open>ToNumber\<close> converts to
  \<open>n\<close>: the string \<open>abc\<close> and the object \<open>{}\<close> convert to NaN, the string \<open>5\<close> to 5, the
  empty string and the empty array to 0, \<open>true\<close> to 1. Values whose conversion raises
  or has an effect (a symbol, an object with a \<open>valueOf\<close> of its own) are not modelled.
\<close>

datatype jsval = Null | Undefined | Number jsnum | Other string jsnum

text \<open>\<open>ToNumber\<close>, which the global \<open>isNaN\<close>, \<open>isFinite\<close> and \<open>>=\<close> apply to their argument.\<close>

fun ToNumber :: "jsval \<Rightarrow> jsnum" where
  "ToNumber Null = Fin 0"
| "ToNumber Undefined = NaN"
| "ToNumber (Number n) = n"
| "ToNumber (Other s n) = n"

definition isNaN :: "jsval \<Rightarrow> bool" where
  "isNaN v = (ToNumber v = NaN)"

definition isFinite :: "jsval \<Rightarrow> bool" where
  "isFinite v = (case ToNumber v of Fin _ \<Rightarrow> True | _ \<Rightarrow> False)"

text \<open>
  The finite real a value converts to; read only where the validation has passed,
  which makes the conversion finite.
\<close>

definition real_of :: "jsval \<Rightarrow> real" where
  "real_of v = (case ToNumber v of Fin x \<Rightarrow> x | _ \<Rightarrow> 0)"

text \<open>
  The assignment \<open>this._field = value\<close> of a value that has passed the validation. A
  number becomes the number the field holds (\<open>Inr\<close>). A value of another type is
  stored as it is, without conversion: the field then holds a value that is not a
  number, and the result is that value (\<open>Inl\<close>).
\<close>

definition store :: "jsval \<Rightarrow> (real \<Rightarrow> 'a) \<Rightarrow> jsval + 'a" where
  "store v upd = (case v of Number (Fin x) \<Rightarrow> Inr (upd x) | _ \<Rightarrow> Inl v)"

text \<open>
  The validation every mutator applies:
  \<open>value !== null && !isNaN(value) && isFinite(value)\<close>, with \<open>&& value >= 0\<close> where the
  attribute must not be negative.
\<close>

definition valid_number :: "jsval \<Rightarrow> bool" where
  "valid_number v = (v \<noteq> Null \<and> \<not> isNaN v \<and> isFinite v)"

definition valid_nonneg :: "jsval \<Rightarrow> bool" where
  "valid_nonneg v = (v \<noteq> Null \<and> \<not> isNaN v \<and> isFinite v \<and> js_ge (ToNumber v) (Fin 0))"

section \<open>TSMT$AllocatableItem\<close>

text \<open>
  An item whose private fields hold finite numbers, as the constructor leaves them
  and as the mutators keep them when they are handed numbers: the fields are reals.
  A mutator returns the item (\<open>Inr\<close>), or the value it has stored unconverted in the
  field (\<open>Inl\<close>, see \<open>store\<close>).
\<close>

record item =
  i_capacity :: real
  i_payoff :: real
  i_value :: real
  i_solutionCapacity :: real
  i_capacityRisk :: real
  i_payoffRisk :: real
  i_name :: string
  i_id :: int

definition new_item :: item where
  "new_item = \<lparr>i_capacity = 0, i_payoff = 0, i_value = 0, i_solutionCapacity = 0,
     i_capacityRisk = 0, i_payoffRisk = 0, i_name = [], i_id = 0\<rparr>"

definition set_capacity :: "jsval \<Rightarrow> item \<Rightarrow> jsval + item" where
  "set_capacity v it = (if valid_nonneg v then store v (\<lambda>x. it\<lparr>i_capacity := x\<rparr>) else Inr it)"

definition set_payoff :: "jsval \<Rightarrow> item \<Rightarrow> jsval + item" where
  "set_payoff v it = (if valid_nonneg v then store v (\<lambda>x. it\<lparr>i_payoff := x\<rparr>) else Inr it)"

definition set_solutionValue :: "jsval \<Rightarrow> item \<Rightarrow> jsval + item" where
  "set_solutionValue v it = (if valid_nonneg v then store v (\<lambda>x. it\<lparr>i_value := x\<rparr>) else Inr it)"

definition set_solutionCapacity :: "jsval \<Rightarrow> item \<Rightarrow> jsval + item" where
  "set_solutionCapacity v it = (if valid_number v then store v (\<lambda>x. it\<lparr>i_solutionCapacity := x\<rparr>) else Inr it)"



text \<open>
  An assignment of a number through a mutator, as \<open>allocate\<close> makes them: the item
  with the number stored, or the item as it was if the mutator ignores the number.
\<close>

definition assign :: "(jsval \<Rightarrow> item \<Rightarrow> jsval + item) \<Rightarrow> jsnum \<Rightarrow> item \<Rightarrow> item" where
  "assign setter n it = (case setter (Number n) it of Inr it' \<Rightarrow> it' | Inl v \<Rightarrow> it)"

text \<open>
  Items are shared by reference between the caller and the allocators: the heap maps
  a reference to the item it denotes.
\<close>

type_synonym ref = nat

type_synonym heap = "ref \<Rightarrow> item"

datatype error = TypeError

text \<open>
  A value handed to a parameter that expects an object: \<open>null\<close>, \<open>undefined\<close>, a
  reference to a TSMT$AllocatableItem, or anything else.
\<close>

datatype jsarg = ANull | AUndefined | AItem ref | AOther

section \<open>TSMT$Knapsack\<close>

text \<open>
  The capacity mutator validates and then applies \<open>Math.floor\<close>, which converts what
  it is given to a number, so the stored capacity is a natural number.
  \<open>_solutionPayoff\<close> receives a table cell.
\<close>

record knapsack =
  k_items :: "ref list"
  k_capacity :: nat
  k_solutionCapacity :: real
  k_solutionPayoff :: jsnum

definition k_clear :: knapsack where
  "k_clear = \<lparr>k_items = [], k_capacity = 0, k_solutionCapacity = 0, k_solutionPayoff = Fin 0\<rparr>"

definition k_set_capacity :: "jsval \<Rightarrow> knapsack \<Rightarrow> knapsack" where
  "k_set_capacity v k =
     k\<lparr>k_capacity := nat \<lfloor>if valid_nonneg v then real_of v else real (k_capacity k)\<rfloor>\<rparr>"

definition isValidItem :: "jsarg \<Rightarrow> bool" where
  "isValidItem v = (case v of AItem _ \<Rightarrow> True | _ \<Rightarrow> False)"

definition k_addItem :: "jsarg \<Rightarrow> knapsack \<Rightarrow> knapsack" where
  "k_addItem v k = (case v of AItem r \<Rightarrow> k\<lparr>k_items := k_items k @ [r]\<rparr> | _ \<Rightarrow> k)"

text \<open>The scan of \<open>removeItem\<close>: splice out the first identical reference and stop.\<close>

fun splice_first :: "jsarg \<Rightarrow> ref list \<Rightarrow> ref list" where
  "splice_first v [] = []"
| "splice_first v (x # xs) = (if v = AItem x then xs else x # splice_first v xs)"

definition k_removeItem :: "jsarg \<Rightarrow> knapsack \<Rightarrow> knapsack" where
  "k_removeItem v k = k\<lparr>k_items := splice_first v (k_items k)\<rparr>"

text \<open>
  Modelled from the spec: TSMT$MatrixFactory.create, of the module \<open>./Matrix\<close>, builds
  a table of the given numbers of rows and columns with every cell holding the given
  value.
\<close>

definition MatrixFactory_create :: "nat \<Rightarrow> nat \<Rightarrow> jsnum \<Rightarrow> jsnum list list" where
  "MatrixFactory_create rows cols v = replicate rows (replicate cols v)"

text \<open>
  The read \<open>value[r][x]\<close>. The row index is always a row of the table. The column
  index is a number: at an index that is not an integer within the row the read gives
  \<open>undefined\<close>, which every use here (\<open>+\<close>, \<open>Math.max\<close>, \<open>!=\<close> against a number,
  \<open>> 0\<close>) treats as it treats NaN, so the read gives NaN.
\<close>

definition cell :: "jsnum list list \<Rightarrow> nat \<Rightarrow> real \<Rightarrow> jsnum" where
  "cell v r x =
     (if x = real_of_int \<lfloor>x\<rfloor> \<and> 0 \<le> x \<and> nat \<lfloor>x\<rfloor> < length (v ! r) then v ! r ! nat \<lfloor>x\<rfloor> else NaN)"

definition set_cell :: "jsnum list list \<Rightarrow> nat \<Rightarrow> nat \<Rightarrow> jsnum \<Rightarrow> jsnum list list" where
  "set_cell v r c x = v[r := (v ! r)[c := x]]"

text \<open>The value written to \<open>value[i][capacity]\<close> by the body of the inner loop.\<close>

definition new_cell :: "jsnum list list \<Rightarrow> item \<Rightarrow> nat \<Rightarrow> nat \<Rightarrow> jsnum" where
  "new_cell v it i capacity =
     (if i_capacity it \<le> real capacity
      then Math_max (js_add (Fin (i_payoff it)) (cell v (i - 1) (real capacity - i_capacity it)))
                    (cell v (i - 1) (real capacity))
      else cell v (i - 1) (real capacity))"

definition fill_row :: "heap \<Rightarrow> ref list \<Rightarrow> nat \<Rightarrow> jsnum list list \<Rightarrow> nat \<Rightarrow> jsnum list list" where
  "fill_row h items cols v i =
     foldl (\<lambda>w capacity. set_cell w i capacity (new_cell w (h (items ! (i - 1))) i capacity))
       v [1..<cols]"

definition fill_table :: "heap \<Rightarrow> ref list \<Rightarrow> nat \<Rightarrow> nat \<Rightarrow> jsnum list list" where
  "fill_table h items rows cols =
     foldl (fill_row h items cols) (MatrixFactory_create rows cols (Fin 0)) [1..<rows]"

text \<open>
  The state of the backtracking loop. The loop is left by \<open>curValue > 0\<close> failing, or
  by the TypeError of reading \<open>value[i-1][capacity]\<close> with \<open>i = 0\<close>.
\<close>

record bt =
  bt_i :: nat
  bt_capacity :: real
  bt_curValue :: jsnum
  bt_allocation :: "ref list"
  bt_heap :: heap

definition write_solution :: "heap \<Rightarrow> ref \<Rightarrow> heap" where
  "write_solution h r =
     (let h1 = h(r := assign set_solutionCapacity (Fin (i_capacity (h r))) (h r))
      in h1(r := assign set_solutionValue (Fin (i_payoff (h1 r))) (h1 r)))"

definition bt_cond :: "error + bt \<Rightarrow> bool" where
  "bt_cond st = (case st of Inl _ \<Rightarrow> False | Inr s \<Rightarrow> js_gt (bt_curValue s) (Fin 0))"

definition bt_body :: "jsnum list list \<Rightarrow> ref list \<Rightarrow> error + bt \<Rightarrow> error + bt" where
  "bt_body v items st =
     (case st of
        Inl e \<Rightarrow> Inl e
      | Inr s \<Rightarrow>
          if bt_i s = 0 then Inl TypeError
          else if js_ne (cell v (bt_i s - 1) (bt_capacity s)) (bt_curValue s) then
            (let r = items ! (bt_i s - 1);
                 h' = write_solution (bt_heap s) r;
                 i' = bt_i s - 1;
                 capacity' = bt_capacity s - i_capacity (h' r)
             in Inr \<lparr>bt_i = i', bt_capacity = capacity', bt_curValue = cell v i' capacity',
                      bt_allocation = bt_allocation s @ [r], bt_heap = h'\<rparr>)
          else Inr (s\<lparr>bt_i := bt_i s - 1, bt_curValue := cell v (bt_i s - 1) (bt_capacity s)\<rparr>))"

text \<open>The state in which \<open>allocate\<close> enters the backtracking loop.\<close>

definition bt_init :: "heap \<Rightarrow> ref list \<Rightarrow> nat \<Rightarrow> error + bt" where
  "bt_init h items capacity =
     (let rows = length items + 1; cols = capacity + 1;
          v = fill_table h items rows cols
      in Inr \<lparr>bt_i = rows - 1, bt_capacity = real (cols - 1),
               bt_curValue = v ! (rows - 1) ! (cols - 1), bt_allocation = [], bt_heap = h\<rparr>)"

text \<open>
  \<open>allocate\<close> returns the selected references, the heap with the solution fields written
  and the allocator; \<open>None\<close> stands for a backtracking loop that does not end.
\<close>

definition k_allocate :: "heap \<Rightarrow> knapsack \<Rightarrow> (error + ref list \<times> heap \<times> knapsack) option" where
  "k_allocate h k =
     (let itemCount = length (k_items k) in
      if itemCount = 0 then Some (Inr ([], h, k))
      else if k_capacity k = 0 then Some (Inr ([], h, k))
      else if itemCount = 1 then
        (let r = k_items k ! 0 in
         if i_capacity (h r) \<le> real (k_capacity k)
         then Some (Inr ([r], write_solution h r, k))
         else Some (Inr ([], h, k)))
      else
        (let rows = itemCount + 1; cols = k_capacity k + 1;
             v = fill_table h (k_items k) rows cols;
             k' = k\<lparr>k_solutionPayoff := v ! (rows - 1) ! (cols - 1)\<rparr>
         in case while_option bt_cond (bt_body v (k_items k)) (bt_init h (k_items k) (k_capacity k)) of
              None \<Rightarrow> None
            | Some (Inl e) \<Rightarrow> Some (Inl e)
            | Some (Inr s) \<Rightarrow> Some (Inr (bt_allocation s, bt_heap s, k'))))"

section \<open>Transform strategies\<close>

text \<open>The record a strategy's \<open>transform\<close> returns (TSMT$IAllocatableItemProps).\<close>

record props =
  p_capacity :: jsnum
  p_payoff :: jsnum
  p_rate :: jsnum
  p_value :: jsnum

text \<open>
  TSMT$DefaultItemStrategy.transform. It returns the record for a non-null
  TSMT$AllocatableItem and falls off its end (\<open>undefined\<close>, here \<open>None\<close>) otherwise.
  The heap is returned with the result.
\<close>

definition DefaultItemStrategy_transform :: "heap \<Rightarrow> jsarg \<Rightarrow> 'd option \<Rightarrow> props option \<times> heap" where
  "DefaultItemStrategy_transform h v d =
     (case v of
        AItem r \<Rightarrow>
          (Some \<lparr>p_capacity = Fin (i_capacity (h r)),
                 p_payoff = Fin (i_payoff (h r)),
                 p_rate = js_div (Fin (i_payoff (h r))) (Fin (i_capacity (h r))),
                 p_value = js_mul (js_div (Fin (i_solutionCapacity (h r))) (Fin (i_capacity (h r))))
                             (Fin (i_payoff (h r)))\<rparr>, h)
      | _ \<Rightarrow> (None, h))"

text \<open>
  A strategy as the allocator uses it: its \<open>transform\<close>, which reads the item and the
  strategy data and returns a record, or \<open>undefined\<close>.
\<close>

type_synonym 'd strategy = "heap \<Rightarrow> jsarg \<Rightarrow> 'd option \<Rightarrow> props option"

definition default_strategy :: "'d strategy" where
  "default_strategy h v d = fst (DefaultItemStrategy_transform h v d)"

text \<open>
  A value handed to \<open>addStrategy\<close>: \<open>null\<close>, \<open>undefined\<close>, or an object with the names of
  its own properties, the names of the properties it inherits through its prototype
  chain, and the behaviour of its \<open>transform\<close>.
\<close>

datatype 'd strategy_value =
  SNull | SUndefined | SObject "string list" "string list" "'d strategy"

text \<open>The properties every object inherits from \<open>Object.prototype\<close>.\<close>

definition Object_prototype :: "string list" where
  "Object_prototype = [''constructor'', ''hasOwnProperty'', ''isPrototypeOf'',
     ''propertyIsEnumerable'', ''toLocaleString'', ''toString'', ''valueOf'']"

text \<open>Whether the value exposes a \<open>transform\<close> operation, own or inherited.\<close>

fun exposes_transform :: "'d strategy_value \<Rightarrow> bool" where
  "exposes_transform (SObject own inherited t) = (''transform'' \<in> set own \<or> ''transform'' \<in> set inherited)"
| "exposes_transform _ = False"

text \<open>
  An instance of the class TSMT$DefaultItemStrategy: the constructor assigns no
  property, and \<open>transform\<close> is a method of the class, so it lives on the prototype.
\<close>

definition new_DefaultItemStrategy :: "'d strategy_value" where
  "new_DefaultItemStrategy = SObject [] (''transform'' # Object_prototype) default_strategy"

section \<open>TSMT$ItemAllocation\<close>

record 'd allocation =
  a_strategy :: "'d strategy option"
  a_items :: "ref list"
  a_capacity :: real
  a_data :: "'d option"
  a_solutionCapacity :: jsnum
  a_solutionPayoff :: jsnum

definition a_clear :: "'d allocation" where
  "a_clear = \<lparr>a_strategy = None, a_items = [], a_capacity = 0, a_data = None,
     a_solutionCapacity = Fin 0, a_solutionPayoff = Fin 0\<rparr>"

definition a_set_capacity :: "jsval \<Rightarrow> 'd allocation \<Rightarrow> jsval + 'd allocation" where
  "a_set_capacity v a = (if valid_nonneg v then store v (\<lambda>x. a\<lparr>a_capacity := x\<rparr>) else Inr a)"

text \<open>
  \<open>__isValidStrategy\<close>: \<open>value !== null && value.hasOwnProperty('transform')\<close>. On
  \<open>undefined\<close> the property access raises a TypeError, and so does the call on an
  object that has no \<open>hasOwnProperty\<close>, one created without a prototype. An object
  that has it is taken to have the method of \<open>Object.prototype\<close>.
\<close>

fun isValidStrategy :: "'d strategy_value \<Rightarrow> error + bool" where
  "isValidStrategy SNull = Inr False"
| "isValidStrategy SUndefined = Inl TypeError"
| "isValidStrategy (SObject own inherited t) =
     (if ''hasOwnProperty'' \<in> set own \<or> ''hasOwnProperty'' \<in> set inherited
      then Inr (''transform'' \<in> set own) else Inl TypeError)"

fun transform_of :: "'d strategy_value \<Rightarrow> 'd strategy" where
  "transform_of (SObject own inherited t) = t"
| "transform_of _ = (\<lambda>h v d. None)"

definition addStrategy :: "'d strategy_value \<Rightarrow> 'd allocation \<Rightarrow> error + 'd allocation" where
  "addStrategy s a =
     (case isValidStrategy s of
        Inl e \<Rightarrow> Inl e
      | Inr ok \<Rightarrow> Inr (if ok then a\<lparr>a_strategy := Some (transform_of s)\<rparr> else a))"

definition a_addItem :: "jsarg \<Rightarrow> 'd allocation \<Rightarrow> 'd allocation" where
  "a_addItem v a = (case v of AItem r \<Rightarrow> a\<lparr>a_items := a_items a @ [r]\<rparr> | _ \<Rightarrow> a)"

definition a_removeItem :: "jsarg \<Rightarrow> 'd allocation \<Rightarrow> 'd allocation" where
  "a_removeItem v a = a\<lparr>a_items := splice_first v (a_items a)\<rparr>"

text \<open>
  The comparator handed to \<open>sort\<close>. Reading \<open>rate\<close> from an \<open>undefined\<close> transform result
  raises a TypeError.
\<close>

definition compare_rate :: "'d strategy \<Rightarrow> heap \<Rightarrow> 'd option \<Rightarrow> ref \<Rightarrow> ref \<Rightarrow> error + int" where
  "compare_rate st h d item1 item2 =
     (case st h (AItem item1) d of
        None \<Rightarrow> Inl TypeError
      | Some t1 \<Rightarrow>
          (case st h (AItem item2) d of
             None \<Rightarrow> Inl TypeError
           | Some t2 \<Rightarrow>
               Inr (if js_gt (p_rate t1) (p_rate t2) then - 1
                    else if js_lt (p_rate t1) (p_rate t2) then 1 else 0)))"

text \<open>
  \<open>Array.prototype.sort\<close> is modelled as a stable insertion sort: an element goes in
  front of the first element the comparator does not put it behind. An exception of
  the comparator leaves the sort. Where the comparator is a consistent ordering, every
  sort gives an order that agrees with it. Where it is not (a rate that is NaN), the
  language leaves the order to the implementation, and this sort is one such
  implementation: another may leave the items in another order.
\<close>

fun insert_by :: "('a \<Rightarrow> 'a \<Rightarrow> error + int) \<Rightarrow> 'a \<Rightarrow> 'a list \<Rightarrow> error + 'a list" where
  "insert_by cmp x [] = Inr [x]"
| "insert_by cmp x (y # ys) =
     (case cmp x y of
        Inl e \<Rightarrow> Inl e
      | Inr c \<Rightarrow>
          if c \<le> 0 then Inr (x # y # ys)
          else (case insert_by cmp x ys of Inl e \<Rightarrow> Inl e | Inr zs \<Rightarrow> Inr (y # zs)))"

fun sort_by :: "('a \<Rightarrow> 'a \<Rightarrow> error + int) \<Rightarrow> 'a list \<Rightarrow> error + 'a list" where
  "sort_by cmp [] = Inr []"
| "sort_by cmp (x # xs) =
     (case sort_by cmp xs of Inl e \<Rightarrow> Inl e | Inr ys \<Rightarrow> insert_by cmp x ys)"

text \<open>
  Dantzig's loop over the sorted collection, from the item at index \<open>i\<close> on; the
  \<open>break\<close>s return.
\<close>

fun dantzig :: "'d strategy \<Rightarrow> ref list \<Rightarrow> heap \<Rightarrow> 'd allocation \<Rightarrow> ref list \<Rightarrow>
    error + ref list \<times> heap \<times> 'd allocation" where
  "dantzig st [] h a allocation = Inr (allocation, h, a)"
| "dantzig st (r # rs) h a allocation =
     (let slack = js_sub (Fin (a_capacity a)) (a_solutionCapacity a) in
      if js_le slack (Fin 0) then Inr (allocation, h, a)
      else
        (case st h (AItem r) (a_data a) of
           None \<Rightarrow> Inl TypeError
         | Some p \<Rightarrow>
             if js_ge (p_capacity p) slack then
               (let h1 = h(r := assign set_solutionCapacity slack (h r));
                    a1 = a\<lparr>a_solutionCapacity := Fin (a_capacity a)\<rparr>;
                    h2 = h1(r := assign set_solutionValue (js_mul (p_rate p) slack) (h1 r));
                    a2 = a1\<lparr>a_solutionPayoff := js_add (a_solutionPayoff a1) (Fin (i_value (h2 r)))\<rparr>
                in Inr (allocation @ [r], h2, a2))
             else
               (let h1 = h(r := assign set_solutionCapacity (p_capacity p) (h r));
                    h2 = h1(r := assign set_solutionValue (p_payoff p) (h1 r));
                    a1 = a\<lparr>a_solutionCapacity := js_add (a_solutionCapacity a) (p_capacity p)\<rparr>;
                    a2 = a1\<lparr>a_solutionPayoff := js_add (a_solutionPayoff a1) (p_payoff p)\<rparr>
                in dantzig st rs h2 a2 (allocation @ [r]))))"

definition a_allocate :: "heap \<Rightarrow> 'd allocation \<Rightarrow> error + ref list \<times> heap \<times> 'd allocation" where
  "a_allocate h a =
     (let itemCount = length (a_items a) in
      if itemCount = 0 then Inr ([], h, a)
      else if a_capacity a = 0 then Inr ([], h, a)
      else
        (let st = (case a_strategy a of None \<Rightarrow> default_strategy | Some s \<Rightarrow> s);
             a0 = a\<lparr>a_strategy := Some st\<rparr>
         in if itemCount = 1 then
              (let r = a_items a0 ! 0 in
               case st h (AItem r) (a_data a0) of
                 None \<Rightarrow> Inl TypeError
               | Some p \<Rightarrow>
                   (let f = (if js_le (p_capacity p) (Fin (a_capacity a0)) then Fin 1
                             else js_div (Fin (a_capacity a0)) (p_capacity p));
                        a1 = a0\<lparr>a_solutionCapacity := js_mul f (p_capacity p)\<rparr>;
                        a2 = a1\<lparr>a_solutionPayoff := js_mul f (p_payoff p)\<rparr>;
                        h1 = h(r := assign set_solutionValue (a_solutionPayoff a2) (h r));
                        h2 = h1(r := assign set_solutionCapacity (a_solutionCapacity a2) (h1 r))
                    in Inr ([r], h2, a2)))
            else
              (case sort_by (compare_rate st h (a_data a0)) (a_items a0) of
                 Inl e \<Rightarrow> Inl e
               | Inr sorted_items \<Rightarrow>
                   (let a1 = a0\<lparr>a_items := sorted_items\<rparr>;
                        a2 = a1\<lparr>a_solutionCapacity := Fin 0\<rparr>
                    in dantzig st (a_items a2) h a2 []))))"

section \<open>Notions used in the statements and proofs about TSMT$Knapsack\<close>

text \<open>
  An item as \<open>allocate\<close> expects it: the capacity is a non-negative integer. The payoff
  is not negative, as the item's mutators ensure.
\<close>

definition integral_item :: "item \<Rightarrow> bool" where
  "integral_item it = (0 \<le> i_capacity it \<and> i_capacity it = real_of_int \<lfloor>i_capacity it\<rfloor> \<and> 0 \<le> i_payoff it)"

text \<open>
  The number the loops leave in \<open>value[i][c]\<close> when the item capacities are integral.
  Column 0 is never written.
\<close>

fun T :: "heap \<Rightarrow> ref list \<Rightarrow> nat \<Rightarrow> nat \<Rightarrow> jsnum" where
  "T h items 0 c = Fin 0"
| "T h items (Suc i) c =
     (let it = h (items ! i); w = nat \<lfloor>i_capacity it\<rfloor> in
      if c = 0 then Fin 0
      else if w \<le> c then Math_max (js_add (Fin (i_payoff it)) (T h items i (c - w))) (T h items i c)
      else T h items i c)"

text \<open>A table cell is a number that is not negative, or +Infinity where a sum overflows.\<close>

definition nonneg_cell :: "jsnum \<Rightarrow> bool" where
  "nonneg_cell x = (case x of Fin y \<Rightarrow> 0 \<le> y | PInf \<Rightarrow> True | _ \<Rightarrow> False)"

text \<open>
  The table while it is filled: the rows before row \<open>k\<close>, and row \<open>k\<close> before column \<open>m\<close>,
  hold their final values; the other cells still hold 0.
\<close>

definition filled :: "heap \<Rightarrow> ref list \<Rightarrow> nat \<Rightarrow> nat \<Rightarrow> nat \<Rightarrow> nat \<Rightarrow> jsnum list list \<Rightarrow> bool" where
  "filled h items rows cols k m v =
     (length v = rows \<and>
      (\<forall>j<rows. length (v ! j) = cols \<and>
         (\<forall>c<cols. v ! j ! c = (if j < k \<or> (j = k \<and> c < m) then T h items j c else Fin 0))))"

text \<open>Two heaps whose items have the same capacities and payoffs.\<close>

definition same_inputs :: "heap \<Rightarrow> heap \<Rightarrow> bool" where
  "same_inputs h h' = (\<forall>r. i_capacity (h' r) = i_capacity (h r) \<and> i_payoff (h' r) = i_payoff (h r))"

text \<open>What holds whenever the test of the backtracking loop is evaluated.\<close>

definition bt_inv :: "heap \<Rightarrow> ref list \<Rightarrow> nat \<Rightarrow> bt \<Rightarrow> nat \<Rightarrow> bool" where
  "bt_inv h items C s c =
     (bt_i s \<le> length items \<and> c \<le> C \<and> bt_capacity s = real c \<and>
      bt_curValue s = T h items (bt_i s) c \<and> same_inputs h (bt_heap s))"

text \<open>
  A selection is a list of positions of the item collection. Its total capacity and
  total payoff, and what it is to be a subset of the collection that fits capacity
  \<open>C\<close>.
\<close>

definition total_capacity :: "heap \<Rightarrow> ref list \<Rightarrow> nat list \<Rightarrow> real" where
  "total_capacity h items ps = sum_list (map (\<lambda>p. i_capacity (h (items ! p))) ps)"

definition total_payoff :: "heap \<Rightarrow> ref list \<Rightarrow> nat list \<Rightarrow> real" where
  "total_payoff h items ps = sum_list (map (\<lambda>p. i_payoff (h (items ! p))) ps)"

definition feasible :: "heap \<Rightarrow> ref list \<Rightarrow> nat \<Rightarrow> nat list \<Rightarrow> bool" where
  "feasible h items C ps =
     (distinct ps \<and> list_all (\<lambda>p. p < length items) ps \<and> total_capacity h items ps \<le> real C)"

section \<open>Concrete items\<close>

definition item_of :: "real \<Rightarrow> real \<Rightarrow> item" where
  "item_of c p = new_item\<lparr>i_capacity := c, i_payoff := p\<rparr>"

text \<open>The heap in which reference \<open>r\<close> denotes the \<open>r\<close>-th item of a list.\<close>

definition heap_of :: "item list \<Rightarrow> heap" where
  "heap_of its r = (if r < length its then its ! r else new_item)"

definition knapsack_of :: "ref list \<Rightarrow> nat \<Rightarrow> knapsack" where
  "knapsack_of items C = k_clear\<lparr>k_items := items, k_capacity := C\<rparr>"

definition allocation_of :: "ref list \<Rightarrow> real \<Rightarrow> unit allocation" where
  "allocation_of items C = a_clear\<lparr>a_items := items, a_capacity := C\<rparr>"

text \<open>
  The items of the allocator's test "simple problem #1": capacities and payoffs
  (5,10), (4,40), (6,30), (3,50), added in this order.
\<close>

definition example_heap :: heap where
  "example_heap = heap_of [item_of 5 10, item_of 4 40, item_of 6 30, item_of 3 50]"

definition example_items :: "ref list" where
  "example_items = [0, 1, 2, 3]"

section \<open>Notions used in the statements about the mutators and TSMT$ItemAllocation\<close>


text \<open>
  What holds of the capacity and the payoff of an item: they are not negative, as the
  mutators ensure, and as numbers of the program they are at most the largest finite
  binary64 number.
\<close>

definition valid_item :: "item \<Rightarrow> bool" where
  "valid_item it =
     (0 \<le> i_capacity it \<and> i_capacity it \<le> max_double \<and>
      0 \<le> i_payoff it \<and> i_payoff it \<le> max_double)"

text \<open>
  The fraction \<open>f\<close> of a single item that is consumed: 1 if its capacity \<open>c\<close> fits the
  capacity \<open>C\<close> of the environment, and the quotient of \<open>C\<close> by \<open>c\<close> otherwise.
\<close>

definition fraction :: "real \<Rightarrow> real \<Rightarrow> jsnum" where
  "fraction C c = (if c \<le> C then Fin 1 else js_div (Fin C) (Fin c))"

text \<open>The rate a strategy gives an item; NaN where it returns no record.\<close>

definition rate_of :: "'d strategy \<Rightarrow> heap \<Rightarrow> 'd option \<Rightarrow> ref \<Rightarrow> jsnum" where
  "rate_of st h d r = (case st h (AItem r) d of None \<Rightarrow> NaN | Some p \<Rightarrow> p_rate p)"

text \<open>The strategy \<open>allocate\<close> works with: the one that is set, or the default strategy.\<close>

definition strategy_in_use :: "'d allocation \<Rightarrow> 'd strategy" where
  "strategy_in_use a = (case a_strategy a of None \<Rightarrow> default_strategy | Some s \<Rightarrow> s)"

text \<open>
  A strategy that returns a record for every item of a collection, whatever the
  solution fields of the items hold.
\<close>

definition returns_records :: "'d strategy \<Rightarrow> 'd option \<Rightarrow> ref list \<Rightarrow> bool" where
  "returns_records st d items = (\<forall>h r. r \<in> set items \<longrightarrow> st h (AItem r) d \<noteq> None)"

text \<open>A collection in descending order of the rates a strategy gives its items.\<close>

definition descending_rates :: "'d strategy \<Rightarrow> heap \<Rightarrow> 'd option \<Rightarrow> ref list \<Rightarrow> bool" where
  "descending_rates st h d items =
     sorted_wrt (\<lambda>x y. js_ge (rate_of st h d x) (rate_of st h d y)) items"

section \<open>Rounding to binary64\<close>

lemma round_even_nonneg: "0 \<le> t \<Longrightarrow> 0 \<le> round_even t"
  by (auto simp: round_even_def Let_def)

lemma round_even_le: "t \<le> of_int k \<Longrightarrow> round_even t \<le> k"
proof -
  assume t: "t \<le> of_int k"
  have fl: "\<lfloor>t\<rfloor> \<le> k" using t by (simp add: floor_le_iff) 
  show ?thesis
  proof (cases "\<lfloor>t\<rfloor> = k")
    case True
    then have "t = of_int k" using t by (metis of_int_floor_le order_antisym)
    then show ?thesis by (simp add: round_even_def)
  next
    case False
    then have "\<lfloor>t\<rfloor> + 1 \<le> k" using fl by simp
    then show ?thesis by (auto simp: round_even_def Let_def)
  qed
qed

lemma exponent_bounds:
  assumes "0 < x"
  shows "2 powi (exponent x) \<le> x" and "x < 2 powi (exponent x + 1)"
proof -
  have "2 powi (exponent x) \<le> x \<and> x < 2 powi (exponent x + 1)"
  proof (cases "1 \<le> x")
    case True
    define n where "n = \<lfloor>x\<rfloor>"
    have n: "0 < n" using True by (simp add: n_def)
    have b: "1 \<le> bitlen n" using n by (metis bitlen_eq_zero_iff bitlen_nonneg linorder_not_less int_one_le_iff_zero_less order_le_less)
    have e: "exponent x = bitlen n - 1" using True by (simp add: exponent_def n_def)
    from bitlen_bounds[OF n] have lo: "2 ^ nat (bitlen n - 1) \<le> n" and hi: "n < 2 ^ nat (bitlen n)" by auto
    have "(2::real) powi (bitlen n - 1) = 2 ^ nat (bitlen n - 1)" using b by (simp add: power_int_def)
    also have "\<dots> \<le> of_int n" using lo by (metis of_int_le_iff of_int_numeral of_int_power)
    also have "\<dots> \<le> x" by (simp add: n_def)
    finally have 1: "2 powi (exponent x) \<le> x" by (simp add: e)
    have "n + 1 \<le> 2 ^ nat (bitlen n)" using hi by simp
    then have "real_of_int (n + 1) \<le> (2::real) ^ nat (bitlen n)" by (metis of_int_le_iff of_int_numeral of_int_power)
    moreover have "x < real_of_int (n + 1)" by (simp add: n_def)
    ultimately have "x < (2::real) ^ nat (bitlen n)" by linarith
    moreover have "(2::real) powi (bitlen n - 1 + 1) = 2 ^ nat (bitlen n)" using b by (simp add: power_int_def)
    ultimately have 2: "x < 2 powi (exponent x + 1)" by (simp add: e)
    show ?thesis using 1 2 by simp
  next
    case False
    then have x1: "x < 1" by simp
    define n where "n = \<lceil>1 / x\<rceil>"
    have inv: "1 < 1 / x" using assms x1 by simp
    then have n2: "2 \<le> n" unfolding n_def by (simp add: le_ceiling_iff)
    define k where "k = bitlen (n - 1)"
    have n1: "0 < n - 1" using n2 by simp
    have k1: "1 \<le> k" unfolding k_def using n1 by (metis bitlen_eq_zero_iff bitlen_nonneg linorder_not_less int_one_le_iff_zero_less order_le_less)
    have e: "exponent x = - k" using False by (simp add: exponent_def n_def k_def)
    from bitlen_bounds[OF n1] have lo: "2 ^ nat (k - 1) \<le> n - 1" and hi: "n - 1 < 2 ^ nat k"
      by (auto simp: k_def)
    have "n \<le> 2 ^ nat k" using hi by simp
    then have "real_of_int n \<le> (2::real) ^ nat k" by (metis of_int_le_iff of_int_numeral of_int_power)
    moreover have "1 / x \<le> real_of_int n" by (simp add: n_def)
    ultimately have "1 / x \<le> (2::real) ^ nat k" by linarith
    then have "1 \<le> 2 ^ nat k * x" using assms by (simp add: field_simps)
    then have "1 / 2 ^ nat k \<le> x" by (simp add: field_simps)
    moreover have "(2::real) powi (- k) = 1 / 2 ^ nat k" using k1 by (simp add: power_int_def field_simps)
    ultimately have 1: "2 powi (exponent x) \<le> x" by (simp add: e)
    have "real_of_int (n - 1) < 1 / x" unfolding n_def by linarith
    moreover have "(2::real) ^ nat (k - 1) \<le> real_of_int (n - 1)" using lo by (metis of_int_le_iff of_int_numeral of_int_power)
    ultimately have "(2::real) ^ nat (k - 1) < 1 / x" by linarith
    then have "2 ^ nat (k - 1) * x < 1" using assms by (simp add: field_simps)
    then have "x < 1 / 2 ^ nat (k - 1)" by (simp add: field_simps)
    moreover have "(2::real) powi (- k + 1) = 1 / 2 ^ nat (k - 1)"
    proof (cases "k = 1")
      case True then show ?thesis by simp
    next
      case False
      then have "- k + 1 < 0" using k1 by simp
      moreover have "nat (- (- k + 1)) = nat (k - 1)" by simp
      ultimately show ?thesis by (simp add: power_int_def field_simps)
    qed
    ultimately have 2: "x < 2 powi (exponent x + 1)" by (simp add: e)
    show ?thesis using 1 2 by simp
  qed
  then show "2 powi (exponent x) \<le> x" and "x < 2 powi (exponent x + 1)" by simp_all
qed

lemma powi_less_imp_less: "(2::real) powi a \<le> x \<Longrightarrow> x < 2 powi b \<Longrightarrow> a < b"
proof (rule ccontr)
  assume a: "(2::real) powi a \<le> x" and b: "x < 2 powi b" and n: "\<not> a < b"
  then have "(2::real) powi b \<le> 2 powi a" by (intro power_int_increasing) auto
  then show False using a b by linarith
qed

lemma pow53: "(9007199254740992::real) * 2 powi (e - 52) = 2 powi (e + 1)"
proof -
  have "(2::real) powi (53 + (e - 52)) = 2 powi 53 * 2 powi (e - 52)"
    by (rule power_int_add) simp
  moreover have "53 + (e - 52) = e + 1" by simp
  moreover have "(2::real) powi 53 = 9007199254740992" by (simp add: power_int_def)
  ultimately show ?thesis by (simp only:)
qed

text \<open>The significand that \<open>binary64\<close> computes has at most 53 bits, or is \<open>2^53\<close>.\<close>

lemma significand_bounds:
  assumes x: "0 < x" and e: "exponent x \<le> e"
  shows "0 \<le> round_even (x / 2 powi (e - 52))"
    and "round_even (x / 2 powi (e - 52)) \<le> 9007199254740992"
proof -
  have q: "0 < (2::real) powi (e - 52)" by simp
  show "0 \<le> round_even (x / 2 powi (e - 52))"
    using x q by (intro round_even_nonneg) simp
  have "x < 2 powi (exponent x + 1)" using exponent_bounds(2)[OF x] .
  also have "\<dots> \<le> 2 powi (e + 1)" using e by (intro power_int_increasing) auto
  also have "\<dots> = 9007199254740992 * 2 powi (e - 52)" by (rule pow53[symmetric])
  finally have "x / 2 powi (e - 52) < 9007199254740992" using q by (simp add: field_simps)
  then have "x / 2 powi (e - 52) \<le> real_of_int 9007199254740992" by simp
  then show "round_even (x / 2 powi (e - 52)) \<le> 9007199254740992"
    by (rule round_even_le)
qed

text \<open>\<open>binary64\<close> on a positive real, with the exponent \<open>e\<close> and the significand \<open>m\<close> named.\<close>

lemma binary64_pos:
  assumes x: "0 < x" and e: "e = max (exponent x) (- 1022)"
    and m: "m = round_even (x / 2 powi (e - 52))"
  shows "binary64 x =
     (if 1023 < e then PInf
      else if e = 1023 \<and> 9007199254740992 \<le> \<bar>m\<bar> then PInf
      else Fin (real_of_int m * 2 powi (e - 52)))"
proof -
  have a: "\<bar>x\<bar> = x" "x \<noteq> 0" "\<not> x < 0" using x by simp_all
  show ?thesis
    unfolding binary64_def Let_def overflow_def e m
    by (simp only: a if_False)
qed

lemma binary64_nonneg: "0 \<le> x \<Longrightarrow> nonneg_cell (binary64 x)"
proof (cases "x = 0")
  case True
  then show ?thesis by (simp add: binary64_def nonneg_cell_def)
next
  case False
  assume "0 \<le> x"
  then have x: "0 < x" using False by simp
  define e where "e = max (exponent x) (- 1022)"
  define m where "m = round_even (x / 2 powi (e - 52))"
  have "exponent x \<le> e" by (simp add: e_def)
  then have "0 \<le> m" unfolding m_def using significand_bounds(1)[OF x] by simp
  then have "0 \<le> real_of_int m * 2 powi (e - 52)" by simp
  then show ?thesis
    unfolding binary64_pos[OF x e_def m_def] by (simp add: nonneg_cell_def)
qed

lemma binary64_below_one:
  assumes "0 \<le> x" "x < 1"
  shows "\<exists>y. binary64 x = Fin y \<and> 0 \<le> y \<and> y \<le> 1"
proof (cases "x = 0")
  case True
  then show ?thesis by (simp add: binary64_def)
next
  case False
  then have x: "0 < x" using assms by simp
  define e where "e = max (exponent x) (- 1022)"
  define m where "m = round_even (x / 2 powi (e - 52))"
  have "exponent x < 0"
    using powi_less_imp_less[of "exponent x" x 0] exponent_bounds(1)[OF x] assms(2) by simp
  then have e1: "e \<le> - 1" and ex: "exponent x \<le> e" by (simp_all add: e_def)
  have m: "0 \<le> m" "m \<le> 9007199254740992"
    unfolding m_def using significand_bounds[OF x ex] by simp_all
  have "real_of_int m \<le> 9007199254740992" using m(2) by linarith
  then have "real_of_int m * 2 powi (e - 52) \<le> 9007199254740992 * 2 powi (e - 52)"
    by (intro mult_right_mono) simp_all
  also have "\<dots> = (2::real) powi (e + 1)" by (rule pow53)
  also have "\<dots> \<le> 2 powi 0" using e1 by (intro power_int_increasing) auto
  finally have le: "real_of_int m * 2 powi (e - 52) \<le> 1" by simp
  have ge: "0 \<le> real_of_int m * 2 powi (e - 52)" using m(1) by simp
  have "\<not> 1023 < e" "\<not> (e = 1023 \<and> 9007199254740992 \<le> \<bar>m\<bar>)" using e1 by simp_all
  then have "binary64 x = Fin (real_of_int m * 2 powi (e - 52))"
    unfolding binary64_pos[OF x e_def m_def] by (simp only: if_False)
  then show ?thesis using le ge by simp
qed

lemma max_double_powi: "max_double = 9007199254740991 * 2 powi 971"
proof -
  have "(2::real) ^ 53 - 1 = 9007199254740991" by simp
  moreover have "(2::real) ^ 971 = 2 powi 971" by (simp only: power_int_def) simp
  ultimately show ?thesis unfolding max_double_def by (simp only:)
qed

lemma binary64_finite:
  assumes "0 \<le> x" "x \<le> max_double"
  shows "\<exists>y. binary64 x = Fin y \<and> 0 \<le> y"
proof (cases "x = 0")
  case True
  then show ?thesis by (simp add: binary64_def)
next
  case False
  then have x: "0 < x" using assms by simp
  define e where "e = max (exponent x) (- 1022)"
  define m where "m = round_even (x / 2 powi (e - 52))"
  have q: "0 < (2::real) powi 971" by simp
  have "max_double < 9007199254740992 * 2 powi 971"
    unfolding max_double_powi using q by (intro mult_strict_right_mono) simp_all
  also have "\<dots> = 2 powi 1024"
  proof -
    have "(1023::int) - 52 = 971" "(1023::int) + 1 = 1024" by simp_all
    then show ?thesis using pow53[of 1023] by (simp only:)
  qed
  finally have "x < 2 powi 1024" using assms(2) by simp
  then have "exponent x < 1024"
    using powi_less_imp_less[of "exponent x" x 1024] exponent_bounds(1)[OF x] by simp
  then have e1: "e \<le> 1023" and ex: "exponent x \<le> e" by (simp_all add: e_def)
  have m: "0 \<le> m" "m \<le> 9007199254740992"
    unfolding m_def using significand_bounds[OF x ex] by simp_all
  have ge: "0 \<le> real_of_int m * 2 powi (e - 52)" using m(1) by simp
  have small: "\<not> (e = 1023 \<and> 9007199254740992 \<le> \<bar>m\<bar>)"
  proof
    assume a: "e = 1023 \<and> 9007199254740992 \<le> \<bar>m\<bar>"
    then have e: "e - 52 = 971" by simp
    have "x / 2 powi 971 \<le> max_double / 2 powi 971"
      using assms(2) q by (intro divide_right_mono) simp_all
    also have "\<dots> = real_of_int 9007199254740991" unfolding max_double_powi using q by simp
    finally have "round_even (x / 2 powi 971) \<le> 9007199254740991" by (rule round_even_le)
    then have "m \<le> 9007199254740991" unfolding m_def e .
    then show False using a m(1) by simp
  qed
  have "\<not> 1023 < e" using e1 by simp
  then have "binary64 x = Fin (real_of_int m * 2 powi (e - 52))"
    unfolding binary64_pos[OF x e_def m_def] using small by (simp only: if_False)
  then show ?thesis using ge by simp
qed

lemma js_add_nonneg: "0 \<le> p \<Longrightarrow> nonneg_cell x \<Longrightarrow> nonneg_cell (js_add (Fin p) x)"
  by (cases x) (simp_all add: nonneg_cell_def binary64_nonneg[unfolded nonneg_cell_def])

lemma Math_max_nonneg: "nonneg_cell a \<Longrightarrow> nonneg_cell b \<Longrightarrow> nonneg_cell (Math_max a b)"
  by (cases a; cases b) (simp_all add: nonneg_cell_def Math_max_def)

lemma nonneg_cell_not_NaN: "nonneg_cell x \<Longrightarrow> x \<noteq> NaN"
  by (auto simp: nonneg_cell_def)

lemma nonneg_cell_zero: "nonneg_cell x \<Longrightarrow> \<not> js_gt x (Fin 0) \<Longrightarrow> x = Fin 0"
  by (cases x) (simp_all add: nonneg_cell_def js_gt_def)

section \<open>The value table and the backtracking loop\<close>

lemma cell_nat: "n < length (v ! r) \<Longrightarrow> cell v r (real n) = v ! r ! n"
  by (simp add: cell_def)

lemma integral_item_cap: "integral_item it \<Longrightarrow> i_capacity it = real (nat \<lfloor>i_capacity it\<rfloor>)"
  unfolding integral_item_def
  by (metis of_nat_nat zero_le_floor)

lemma new_cell_T:
  assumes it: "integral_item (h (items ! i))"
    and row: "\<forall>c<cols. v ! i ! c = T h items i c"
    and len: "length (v ! i) = cols"
    and c: "1 \<le> c" "c < cols"
  shows "new_cell v (h (items ! i)) (Suc i) c = T h items (Suc i) c"
proof -
  define w where "w = nat \<lfloor>i_capacity (h (items ! i))\<rfloor>"
  have cap: "i_capacity (h (items ! i)) = real w"
    unfolding w_def using it by (rule integral_item_cap)
  have c0: "c \<noteq> 0" using c by simp
  show ?thesis
  proof (cases "w \<le> c")
    case True
    have d: "real c - real w = real (c - w)" using True by simp
    have "c - w < cols" using c by simp
    then show ?thesis
      using True c row len c0
      by (simp add: new_cell_def cap d cell_nat Let_def w_def[symmetric] del: of_nat_diff)
  next
    case False
    then show ?thesis
      using c row len c0
      by (simp add: new_cell_def cap cell_nat Let_def w_def[symmetric])
  qed
qed

lemma T_col0: "T h items i 0 = Fin 0"
  by (cases i) (simp_all add: Let_def)

lemma filled_create: "filled h items rows cols 1 1 (MatrixFactory_create rows cols (Fin 0))"
  by (auto simp: filled_def MatrixFactory_create_def T_col0)

lemma filled_next_row: "filled h items rows cols k cols v \<Longrightarrow> filled h items rows cols (Suc k) 1 v"
  unfolding filled_def by (auto simp: T_col0 less_Suc_eq)

lemma filled_set_cell:
  assumes f: "filled h items rows cols (Suc i) m v"
    and i: "Suc i < rows" and m: "1 \<le> m" "m < cols"
    and it: "integral_item (h (items ! i))"
  shows "filled h items rows cols (Suc i) (Suc m)
           (set_cell v (Suc i) m (new_cell v (h (items ! i)) (Suc i) m))"
proof -
  have len: "length v = rows" and lenr: "\<And>j. j < rows \<Longrightarrow> length (v ! j) = cols"
    using f by (auto simp: filled_def)
  have rowi: "\<forall>c<cols. v ! i ! c = T h items i c"
    using f i by (auto simp: filled_def)
  have nc: "new_cell v (h (items ! i)) (Suc i) m = T h items (Suc i) m"
    using it rowi lenr[of i] i m by (intro new_cell_T) auto
  show ?thesis
    unfolding filled_def set_cell_def nc
  proof (intro conjI allI impI)
    show "length (v[Suc i := (v ! Suc i)[m := T h items (Suc i) m]]) = rows"
      using len by simp
  next
    fix j assume j: "j < rows"
    show "length (v[Suc i := (v ! Suc i)[m := T h items (Suc i) m]] ! j) = cols"
      using j len lenr by (cases "j = Suc i") simp_all
  next
    fix j c assume j: "j < rows" and c: "c < cols"
    have old: "v ! j ! c = (if j < Suc i \<or> (j = Suc i \<and> c < m) then T h items j c else Fin 0)"
      using f j c by (simp add: filled_def)
    show "v[Suc i := (v ! Suc i)[m := T h items (Suc i) m]] ! j ! c =
          (if j < Suc i \<or> (j = Suc i \<and> c < Suc m) then T h items j c else Fin 0)"
    proof (cases "j = Suc i")
      case True
      show ?thesis
      proof (cases "c = m")
        case True
        with \<open>j = Suc i\<close> show ?thesis using len lenr[of "Suc i"] i m by simp
      next
        case False
        with \<open>j = Suc i\<close> show ?thesis using len i old by (auto simp: less_Suc_eq)
      qed
    next
      case False
      then show ?thesis using old len by simp
    qed
  qed
qed

lemma filled_fill_row_upto:
  assumes f: "filled h items rows cols (Suc i) 1 v"
    and i: "Suc i < rows" and it: "integral_item (h (items ! i))"
  shows "1 \<le> m \<Longrightarrow> m \<le> cols \<Longrightarrow>
     filled h items rows cols (Suc i) m
       (foldl (\<lambda>w capacity. set_cell w (Suc i) capacity (new_cell w (h (items ! i)) (Suc i) capacity))
          v [1..<m])"
proof (induction m)
  case 0
  then show ?case by simp
next
  case (Suc m)
  show ?case
  proof (cases "m = 0")
    case True
    then show ?thesis using f by simp
  next
    case False
    then have m: "1 \<le> m" "m < cols" using Suc.prems by simp_all
    then have ih: "filled h items rows cols (Suc i) m
       (foldl (\<lambda>w capacity. set_cell w (Suc i) capacity (new_cell w (h (items ! i)) (Suc i) capacity))
          v [1..<m])"
      using Suc.IH by simp
    have "[1..<Suc m] = [1..<m] @ [m]" using m by simp
    then show ?thesis
      using filled_set_cell[OF ih i m it] by simp
  qed
qed

lemma filled_fill_row:
  assumes "filled h items rows cols (Suc i) 1 v" "Suc i < rows" "integral_item (h (items ! i))"
    and "1 \<le> cols"
  shows "filled h items rows cols (Suc (Suc i)) 1 (fill_row h items cols v (Suc i))"
proof -
  have "filled h items rows cols (Suc i) cols (fill_row h items cols v (Suc i))"
    using filled_fill_row_upto[OF assms(1-3), of cols] assms(4) by (simp add: fill_row_def)
  then show ?thesis by (rule filled_next_row)
qed

lemma filled_outer:
  assumes its: "\<forall>i<length items. integral_item (h (items ! i))"
    and rows: "rows = Suc (length items)" and cols: "1 \<le> cols"
  shows "1 \<le> k \<Longrightarrow> k \<le> rows \<Longrightarrow>
     filled h items rows cols k 1
       (foldl (fill_row h items cols) (MatrixFactory_create rows cols (Fin 0)) [1..<k])"
proof (induction k)
  case 0
  then show ?case by simp
next
  case (Suc k)
  show ?case
  proof (cases "k = 0")
    case True
    then show ?thesis using filled_create by simp
  next
    case False
    then obtain i where k: "k = Suc i" by (cases k) auto
    have ih: "filled h items rows cols (Suc i) 1
       (foldl (fill_row h items cols) (MatrixFactory_create rows cols (Fin 0)) [1..<Suc i])"
      using Suc k by simp
    have i: "Suc i < rows" using Suc.prems k by simp
    then have it: "integral_item (h (items ! i))" using its rows by simp
    have "[1..<Suc (Suc i)] = [1..<Suc i] @ [Suc i]" by simp
    then show ?thesis
      unfolding k using filled_fill_row[OF ih i it cols] by simp
  qed
qed

lemma fill_table_T:
  assumes "\<forall>i<length items. integral_item (h (items ! i))"
    and "i \<le> length items" "c \<le> C"
  shows "fill_table h items (length items + 1) (C + 1) ! i ! c = T h items i c"
    and "length (fill_table h items (length items + 1) (C + 1) ! i) = C + 1"
proof -
  have "filled h items (Suc (length items)) (C + 1) (Suc (length items)) 1
          (fill_table h items (length items + 1) (C + 1))"
    unfolding fill_table_def
    using filled_outer[OF assms(1), of "Suc (length items)" "C + 1" "Suc (length items)"] by simp
  then show "fill_table h items (length items + 1) (C + 1) ! i ! c = T h items i c"
    and "length (fill_table h items (length items + 1) (C + 1) ! i) = C + 1"
    using assms(2,3) by (auto simp: filled_def)
qed

lemma T_nonneg:
  "\<forall>j<length items. integral_item (h (items ! j)) \<Longrightarrow> i \<le> length items \<Longrightarrow>
     nonneg_cell (T h items i c)"
proof (induction i arbitrary: c)
  case 0
  then show ?case by (simp add: nonneg_cell_def)
next
  case (Suc i)
  have ih: "\<And>c. nonneg_cell (T h items i c)" using Suc by simp
  have "0 \<le> i_payoff (h (items ! i))" using Suc.prems by (simp add: integral_item_def)
  then have "\<And>c. nonneg_cell (js_add (Fin (i_payoff (h (items ! i)))) (T h items i c))"
    using ih by (rule js_add_nonneg)
  then show ?case using ih by (simp add: Let_def Math_max_nonneg nonneg_cell_def[of "Fin 0"])
qed

lemma T_changed:
  assumes "T h items (Suc i) c \<noteq> T h items i c"
  shows "nat \<lfloor>i_capacity (h (items ! i))\<rfloor> \<le> c"
  using assms by (auto simp: Let_def T_col0 split: if_splits)

lemma same_inputs_refl: "same_inputs h h"
  by (simp add: same_inputs_def)

lemma assign_inputs:
  "i_capacity (assign set_solutionCapacity n it) = i_capacity it"
  "i_payoff (assign set_solutionCapacity n it) = i_payoff it"
  "i_capacity (assign set_solutionValue n it) = i_capacity it"
  "i_payoff (assign set_solutionValue n it) = i_payoff it"
  by (cases n; simp add: assign_def set_solutionCapacity_def set_solutionValue_def store_def)+

lemma write_solution_inputs: "same_inputs h h' \<Longrightarrow> same_inputs h (write_solution h' r)"
  by (simp add: same_inputs_def write_solution_def Let_def assign_inputs)

lemma bt_step:
  assumes its: "\<forall>j<length items. integral_item (h (items ! j))"
    and v: "v = fill_table h items (length items + 1) (C + 1)"
    and inv: "bt_inv h items C s c"
    and cond: "bt_cond (Inr s)"
  shows "\<exists>s' c' i. bt_body v items (Inr s) = Inr s' \<and> bt_inv h items C s' c' \<and>
           bt_i s = Suc i \<and> bt_i s' = i \<and> c' \<le> c \<and>
           ((bt_allocation s' = bt_allocation s \<and> c' = c) \<or>
            (bt_allocation s' = bt_allocation s @ [items ! i] \<and>
             c' + nat \<lfloor>i_capacity (h (items ! i))\<rfloor> = c))"
proof -
  have pos: "js_gt (T h items (bt_i s) c) (Fin 0)"
    using inv cond by (simp add: bt_inv_def bt_cond_def)
  then obtain i where i: "bt_i s = Suc i" by (cases "bt_i s") (auto simp: js_gt_def)
  have ile: "i < length items" "c \<le> C" and cap: "bt_capacity s = real c"
    and cur: "bt_curValue s = T h items (Suc i) c" and same: "same_inputs h (bt_heap s)"
    using inv i by (auto simp: bt_inv_def)
  have cl: "cell v i (real c) = T h items i c"
    using fill_table_T[OF its, of i c C] ile unfolding v by (simp add: cell_nat)
  have nn: "T h items i c \<noteq> NaN" "T h items (Suc i) c \<noteq> NaN"
    using T_nonneg[OF its, of i c] T_nonneg[OF its, of "Suc i" c] ile
    by (simp_all add: nonneg_cell_not_NaN del: T.simps)
  have ne: "js_ne (T h items i c) (T h items (Suc i) c) = (T h items i c \<noteq> T h items (Suc i) c)"
    using nn by (simp add: js_ne_def del: T.simps)
  show ?thesis
  proof (cases "T h items i c = T h items (Suc i) c")
    case True
    let ?s' = "s\<lparr>bt_i := i, bt_curValue := T h items i c\<rparr>"
    have "bt_body v items (Inr s) = Inr ?s'"
      using True ne by (simp add: bt_body_def i cap cur cl del: T.simps)
    moreover have "bt_inv h items C ?s' c"
      using ile cap same by (simp add: bt_inv_def)
    ultimately show ?thesis using i
      by (rule_tac x = ?s' in exI, rule_tac x = c in exI, rule_tac x = i in exI) simp
  next
    case False
    define r where "r = items ! i"
    define w where "w = nat \<lfloor>i_capacity (h r)\<rfloor>"
    define h' where "h' = write_solution (bt_heap s) r"
    have ch: "w \<le> c"
      using T_changed[of h items i c] False unfolding w_def r_def by auto
    have same': "same_inputs h h'" unfolding h'_def using same by (rule write_solution_inputs)
    have "integral_item (h r)" using its ile r_def by simp
    then have "i_capacity (h r) = real w" unfolding w_def by (rule integral_item_cap)
    then have capr: "i_capacity (h' r) = real w" using same' by (simp add: same_inputs_def)
    have d: "real c - real w = real (c - w)" using ch by simp
    have cl': "cell v i (real (c - w)) = T h items i (c - w)"
      using fill_table_T[OF its, of i "c - w" C] ile unfolding v by (simp add: cell_nat)
    let ?s' = "\<lparr>bt_i = i, bt_capacity = real (c - w), bt_curValue = T h items i (c - w),
                 bt_allocation = bt_allocation s @ [r], bt_heap = h'\<rparr>"
    have "bt_body v items (Inr s) = Inr ?s'"
      using False ne
      by (simp add: bt_body_def i cap cur cl Let_def r_def[symmetric] h'_def[symmetric]
          capr d cl' del: of_nat_diff T.simps)
    moreover have "bt_inv h items C ?s' (c - w)"
      using ile same' by (simp add: bt_inv_def)
    ultimately show ?thesis
      using i ch
      by (rule_tac x = ?s' in exI, rule_tac x = "c - w" in exI, rule_tac x = i in exI)
         (simp add: w_def r_def del: T.simps)
  qed
qed

lemma while_option_funpow:
  "\<not> b ((f ^^ m) s) \<Longrightarrow> \<forall>j<m. b ((f ^^ j) s) \<Longrightarrow> while_option b f s = Some ((f ^^ m) s)"
proof (induction m arbitrary: s)
  case 0
  then show ?case by (subst while_option_unfold) simp
next
  case (Suc m)
  have b: "b s" using Suc.prems(2) by (metis funpow_0 zero_less_Suc)
  have 1: "\<not> b ((f ^^ m) (f s))" using Suc.prems(1) by (simp add: funpow_swap1)
  have 2: "\<forall>j<m. b ((f ^^ j) (f s))"
  proof (intro allI impI)
    fix j assume "j < m"
    then have "b ((f ^^ Suc j) s)" using Suc.prems(2) by (metis Suc_mono)
    then show "b ((f ^^ j) (f s))" by (simp add: funpow_swap1)
  qed
  have "while_option b f s = while_option b f (f s)"
    using b by (subst while_option_unfold) simp
  then show ?case using Suc.IH[OF 1 2] by (simp add: funpow_swap1)
qed

lemma bt_run:
  assumes its: "\<forall>j<length items. integral_item (h (items ! j))"
    and v: "v = fill_table h items (length items + 1) (C + 1)"
  shows "bt_inv h items C s c \<Longrightarrow>
    \<exists>m s' c' ps. (bt_body v items ^^ m) (Inr s) = Inr s' \<and> \<not> bt_cond (Inr s') \<and>
       bt_inv h items C s' c' \<and> bt_i s' + m = bt_i s \<and>
       (\<forall>j<m. \<exists>sj. (bt_body v items ^^ j) (Inr s) = Inr sj \<and> bt_cond (Inr sj) \<and>
            bt_i sj + j = bt_i s \<and> 0 \<le> bt_capacity sj) \<and>
       bt_allocation s' = bt_allocation s @ map ((!) items) ps \<and>
       sorted_wrt (>) ps \<and> (\<forall>p\<in>set ps. bt_i s' \<le> p \<and> p < bt_i s) \<and>
       c' + sum_list (map (\<lambda>p. nat \<lfloor>i_capacity (h (items ! p))\<rfloor>) ps) = c"
proof (induction "bt_i s" arbitrary: s c)
  case 0
  then have "\<not> bt_cond (Inr s)"
    by (simp add: bt_inv_def bt_cond_def js_gt_def)
  then show ?case
    using "0.prems"
    by (rule_tac x = 0 in exI, rule_tac x = s in exI, rule_tac x = c in exI, rule_tac x = "[]" in exI)
       simp
next
  case (Suc n)
  show ?case
  proof (cases "bt_cond (Inr s)")
    case False
    then show ?thesis
      using Suc.prems
      by (rule_tac x = 0 in exI, rule_tac x = s in exI, rule_tac x = c in exI, rule_tac x = "[]" in exI)
         simp
  next
    case True
    from bt_step[OF its v Suc.prems True] obtain s1 c1 i where
      b: "bt_body v items (Inr s) = Inr s1" and inv1: "bt_inv h items C s1 c1"
      and i: "bt_i s = Suc i" "bt_i s1 = i" and c1: "c1 \<le> c"
      and alt: "(bt_allocation s1 = bt_allocation s \<and> c1 = c) \<or>
            (bt_allocation s1 = bt_allocation s @ [items ! i] \<and>
             c1 + nat \<lfloor>i_capacity (h (items ! i))\<rfloor> = c)"
      by blast
    have n: "n = bt_i s1" using Suc.hyps(2) i by simp
    from Suc.hyps(1)[OF n inv1] obtain m s' c' ps where
      run: "(bt_body v items ^^ m) (Inr s1) = Inr s'" and stop: "\<not> bt_cond (Inr s')"
      and inv': "bt_inv h items C s' c'" and im: "bt_i s' + m = bt_i s1"
      and tr: "\<forall>j<m. \<exists>sj. (bt_body v items ^^ j) (Inr s1) = Inr sj \<and> bt_cond (Inr sj) \<and>
            bt_i sj + j = bt_i s1 \<and> 0 \<le> bt_capacity sj"
      and al: "bt_allocation s' = bt_allocation s1 @ map ((!) items) ps"
      and srt: "sorted_wrt (>) ps" and rng: "\<forall>p\<in>set ps. bt_i s' \<le> p \<and> p < bt_i s1"
      and wsum: "c' + sum_list (map (\<lambda>p. nat \<lfloor>i_capacity (h (items ! p))\<rfloor>) ps) = c1"
      by blast
    have run': "(bt_body v items ^^ Suc m) (Inr s) = Inr s'"
      using run b by (simp add: funpow_swap1)
    have cap0: "0 \<le> bt_capacity s" using Suc.prems by (simp add: bt_inv_def)
    have tr': "\<forall>j<Suc m. \<exists>sj. (bt_body v items ^^ j) (Inr s) = Inr sj \<and> bt_cond (Inr sj) \<and>
            bt_i sj + j = bt_i s \<and> 0 \<le> bt_capacity sj"
    proof (intro allI impI)
      fix j assume j: "j < Suc m"
      show "\<exists>sj. (bt_body v items ^^ j) (Inr s) = Inr sj \<and> bt_cond (Inr sj) \<and>
            bt_i sj + j = bt_i s \<and> 0 \<le> bt_capacity sj"
      proof (cases j)
        case 0
        then show ?thesis using True cap0 by simp
      next
        case (Suc j')
        then have "j' < m" using j by simp
        with tr obtain sj where "(bt_body v items ^^ j') (Inr s1) = Inr sj" "bt_cond (Inr sj)"
          "bt_i sj + j' = bt_i s1" "0 \<le> bt_capacity sj" by blast
        then show ?thesis using Suc b i by (simp add: funpow_swap1)
      qed
    qed
    define ps' where "ps' = (if bt_allocation s1 = bt_allocation s @ [items ! i] then i # ps else ps)"
    have al': "bt_allocation s' = bt_allocation s @ map ((!) items) ps'"
      using al alt by (auto simp: ps'_def)
    have srt': "sorted_wrt (>) ps'" using srt rng i by (auto simp: ps'_def)
    have rng': "\<forall>p\<in>set ps'. bt_i s' \<le> p \<and> p < bt_i s"
      using rng i im by (auto simp: ps'_def)
    have wsum': "c' + sum_list (map (\<lambda>p. nat \<lfloor>i_capacity (h (items ! p))\<rfloor>) ps') = c"
      using wsum alt by (auto simp: ps'_def)
    have im': "bt_i s' + Suc m = bt_i s" using im i by simp
    show ?thesis
      using run' stop inv' im' tr' al' srt' rng' wsum'
      by (rule_tac x = "Suc m" in exI, rule_tac x = s' in exI, rule_tac x = c' in exI,
          rule_tac x = ps' in exI) (simp only: simp_thms)
  qed
qed

lemma bt_init_inv:
  assumes its: "\<forall>j<length items. integral_item (h (items ! j))"
  shows "\<exists>s. bt_init h items C = Inr s \<and> bt_inv h items C s C \<and> bt_i s = length items \<and>
           bt_allocation s = [] \<and> bt_heap s = h"
proof -
  have "fill_table h items (length items + 1) (C + 1) ! length items ! C = T h items (length items) C"
    using fill_table_T(1)[OF its, of "length items" C C] by simp
  then show ?thesis
    by (simp add: bt_init_def Let_def bt_inv_def same_inputs_refl)
qed

text \<open>
  The whole run of the loop from the state \<open>allocate\<close> enters it in: it ends normally
  after \<open>m\<close> iterations, and the positions it selected are \<open>ps\<close>.
\<close>

lemma bt_loop:
  assumes its: "\<forall>j<length items. integral_item (h (items ! j))"
    and v: "v = fill_table h items (length items + 1) (C + 1)"
  shows "\<exists>m s' c' ps.
       while_option bt_cond (bt_body v items) (bt_init h items C) = Some (Inr s') \<and>
       (bt_body v items ^^ m) (bt_init h items C) = Inr s' \<and>
       bt_curValue s' = Fin 0 \<and> bt_i s' + m = length items \<and> bt_capacity s' = real c' \<and>
       (\<forall>j<m. \<exists>sj. (bt_body v items ^^ j) (bt_init h items C) = Inr sj \<and> bt_cond (Inr sj) \<and>
            bt_i sj + j = length items \<and> 0 \<le> bt_capacity sj) \<and>
       bt_allocation s' = map ((!) items) ps \<and>
       sorted_wrt (>) ps \<and> (\<forall>p\<in>set ps. p < length items) \<and>
       c' + sum_list (map (\<lambda>p. nat \<lfloor>i_capacity (h (items ! p))\<rfloor>) ps) = C \<and>
       same_inputs h (bt_heap s')"
proof -
  obtain s where s: "bt_init h items C = Inr s" and inv: "bt_inv h items C s C"
    and s_i: "bt_i s = length items" and s_al: "bt_allocation s = []"
    using bt_init_inv[OF its] by blast
  from bt_run[OF its v inv] obtain m s' c' ps where
    run: "(bt_body v items ^^ m) (Inr s) = Inr s'" and stop: "\<not> bt_cond (Inr s')"
    and inv': "bt_inv h items C s' c'" and im: "bt_i s' + m = bt_i s"
    and tr: "\<forall>j<m. \<exists>sj. (bt_body v items ^^ j) (Inr s) = Inr sj \<and> bt_cond (Inr sj) \<and>
            bt_i sj + j = bt_i s \<and> 0 \<le> bt_capacity sj"
    and al: "bt_allocation s' = bt_allocation s @ map ((!) items) ps"
    and srt: "sorted_wrt (>) ps" and rng: "\<forall>p\<in>set ps. bt_i s' \<le> p \<and> p < bt_i s"
    and wsum: "c' + sum_list (map (\<lambda>p. nat \<lfloor>i_capacity (h (items ! p))\<rfloor>) ps) = C"
    by blast
  have le: "bt_i s' \<le> length items" using inv' by (simp add: bt_inv_def)
  have cur: "bt_curValue s' = T h items (bt_i s') c'" using inv' by (simp add: bt_inv_def)
  have "nonneg_cell (T h items (bt_i s') c')" using T_nonneg[OF its le] .
  moreover have "\<not> js_gt (T h items (bt_i s') c') (Fin 0)"
    using stop cur by (simp add: bt_cond_def)
  ultimately have zero: "T h items (bt_i s') c' = Fin 0" by (rule nonneg_cell_zero)
  have conds: "\<forall>j<m. bt_cond ((bt_body v items ^^ j) (Inr s))"
    using tr by auto
  have w: "while_option bt_cond (bt_body v items) (Inr s) = Some (Inr s')"
    using while_option_funpow[where b = bt_cond and f = "bt_body v items" and m = m and s = "Inr s"] stop conds run by simp
  have cap': "bt_capacity s' = real c'" and same': "same_inputs h (bt_heap s')"
    using inv' by (simp_all add: bt_inv_def)
  show ?thesis
    unfolding s
    using w run cur zero im tr al srt rng wsum cap' same' s_i s_al
    by (rule_tac x = m in exI, rule_tac x = s' in exI, rule_tac x = c' in exI,
        rule_tac x = ps in exI) simp
qed

section \<open>The mutators, the default strategy and the single item\<close>

lemma valid_nonneg_Fin: "valid_nonneg (Number (Fin x)) = (0 \<le> x)"
  by (simp add: valid_nonneg_def isNaN_def isFinite_def js_ge_def)

lemma valid_number_Fin: "valid_number (Number (Fin x))"
  by (simp add: valid_number_def isNaN_def isFinite_def)




lemma store_number: "store (Number (Fin x)) upd = Inr (upd x)"
  by (simp add: store_def)

lemma assign_solutionValue:
  "0 \<le> x \<Longrightarrow> assign set_solutionValue (Fin x) it = it\<lparr>i_value := x\<rparr>"
  by (simp add: assign_def set_solutionValue_def valid_nonneg_Fin store_number)

lemma assign_solutionCapacity:
  "assign set_solutionCapacity (Fin x) it = it\<lparr>i_solutionCapacity := x\<rparr>"
  by (simp add: assign_def set_solutionCapacity_def valid_number_Fin store_number)

lemma default_strategy_item:
  "default_strategy h (AItem r) d =
     Some \<lparr>p_capacity = Fin (i_capacity (h r)), p_payoff = Fin (i_payoff (h r)),
           p_rate = js_div (Fin (i_payoff (h r))) (Fin (i_capacity (h r))),
           p_value = js_mul (js_div (Fin (i_solutionCapacity (h r))) (Fin (i_capacity (h r))))
                       (Fin (i_payoff (h r)))\<rparr>"
  by (simp add: default_strategy_def DefaultItemStrategy_transform_def)

text \<open>The fraction is a number between 0 and 1.\<close>

lemma fraction_unit:
  assumes "0 < C" "0 \<le> c"
  shows "\<exists>f. fraction C c = Fin f \<and> 0 \<le> f \<and> f \<le> 1"
proof (cases "c \<le> C")
  case True
  then show ?thesis by (simp add: fraction_def)
next
  case False
  then have c: "0 < c" "C < c" using assms by simp_all
  then have "0 \<le> C / c" "C / c < 1" using assms by simp_all
  from binary64_below_one[OF this] show ?thesis
    using False c by (simp add: fraction_def)
qed

text \<open>The fraction of a number of the program is a number that is not negative.\<close>

lemma fraction_product:
  assumes "0 < C" "0 \<le> c" and x: "0 \<le> x" "x \<le> max_double"
  shows "\<exists>y. js_mul (fraction C c) (Fin x) = Fin y \<and> 0 \<le> y"
proof -
  from fraction_unit[OF assms(1,2)] obtain f where
    f: "fraction C c = Fin f" "0 \<le> f" "f \<le> 1" by blast
  have "0 \<le> f * x" using f(2) x(1) by simp
  moreover have "f * x \<le> 1 * x" using f(3) x(1) by (intro mult_right_mono) simp_all
  then have "f * x \<le> max_double" using x(2) by simp
  ultimately show ?thesis using binary64_finite[of "f * x"] by (simp add: f(1))
qed

section \<open>The sort and Dantzig's loop\<close>

lemma js_le_total: "a \<noteq> NaN \<Longrightarrow> b \<noteq> NaN \<Longrightarrow> js_le a b \<or> js_le b a"
  by (cases a; cases b) auto

lemma js_lt_not_le: "a \<noteq> NaN \<Longrightarrow> b \<noteq> NaN \<Longrightarrow> js_lt a b = (\<not> js_le b a)"
  by (cases a; cases b) auto

lemma js_le_trans: "js_le a b \<Longrightarrow> js_le b c \<Longrightarrow> js_le a c"
  by (cases a; cases b; cases c) auto

lemma rate_of_Some: "rate_of st h d r \<noteq> NaN \<Longrightarrow> \<exists>p. st h (AItem r) d = Some p \<and> p_rate p = rate_of st h d r"
  by (cases "st h (AItem r) d") (simp_all add: rate_of_def)

lemma compare_rate_le:
  assumes "rate_of st h d x \<noteq> NaN" "rate_of st h d y \<noteq> NaN"
  shows "\<exists>c. compare_rate st h d x y = Inr c \<and> (c \<le> 0) = js_ge (rate_of st h d x) (rate_of st h d y)"
proof -
  obtain p q where p: "st h (AItem x) d = Some p" "p_rate p = rate_of st h d x"
    and q: "st h (AItem y) d = Some q" "p_rate q = rate_of st h d y"
    using rate_of_Some[OF assms(1)] rate_of_Some[OF assms(2)] by blast
  show ?thesis
    using assms js_le_total[OF assms]
    by (auto simp: compare_rate_def p q js_gt_def js_ge_def js_lt_not_le)
qed

lemma insert_by_sorted:
  assumes "rate_of st h d x \<noteq> NaN"
  shows "\<forall>r\<in>set ys. rate_of st h d r \<noteq> NaN \<Longrightarrow>
     \<exists>zs. insert_by (compare_rate st h d) x ys = Inr zs \<and> mset zs = add_mset x (mset ys) \<and>
          (descending_rates st h d ys \<longrightarrow> descending_rates st h d zs)"
proof (induction ys)
  case Nil
  then show ?case by (simp add: descending_rates_def)
next
  case (Cons y ys)
  have y: "rate_of st h d y \<noteq> NaN" using Cons.prems by simp
  from compare_rate_le[OF assms y] obtain c where
    c: "compare_rate st h d x y = Inr c" "(c \<le> 0) = js_ge (rate_of st h d x) (rate_of st h d y)"
    by blast
  show ?case
  proof (cases "c \<le> 0")
    case True
    have "descending_rates st h d (y # ys) \<Longrightarrow> descending_rates st h d (x # y # ys)"
      using True c(2) by (auto simp: descending_rates_def js_ge_def intro: js_le_trans)
    then show ?thesis using True c(1) by simp
  next
    case False
    from Cons.IH Cons.prems obtain zs where
      zs: "insert_by (compare_rate st h d) x ys = Inr zs" "mset zs = add_mset x (mset ys)"
      "descending_rates st h d ys \<longrightarrow> descending_rates st h d zs"
      by auto
    have yx: "js_ge (rate_of st h d y) (rate_of st h d x)"
      using False c(2) js_le_total[OF assms y] by (auto simp: js_ge_def)
    have set: "set zs = insert x (set ys)"
      using zs(2) by (metis set_mset_add_mset_insert set_mset_mset)
    have "descending_rates st h d (y # ys) \<Longrightarrow> descending_rates st h d (y # zs)"
      using zs(3) yx by (auto simp: descending_rates_def set)
    then show ?thesis using False c(1) zs(1,2) by simp
  qed
qed

lemma sort_by_sorted:
  "\<forall>r\<in>set xs. rate_of st h d r \<noteq> NaN \<Longrightarrow>
     \<exists>ys. sort_by (compare_rate st h d) xs = Inr ys \<and> mset ys = mset xs \<and>
          descending_rates st h d ys"
proof (induction xs)
  case Nil
  then show ?case by (simp add: descending_rates_def)
next
  case (Cons x xs)
  then obtain ys where ys: "sort_by (compare_rate st h d) xs = Inr ys" "mset ys = mset xs"
    "descending_rates st h d ys" by auto
  have "\<forall>r\<in>set ys. rate_of st h d r \<noteq> NaN"
    using Cons.prems ys(2) by (metis list.set_intros(2) set_mset_mset)
  moreover have "rate_of st h d x \<noteq> NaN" using Cons.prems by simp
  ultimately obtain zs where "insert_by (compare_rate st h d) x ys = Inr zs"
    "mset zs = add_mset x (mset ys)" "descending_rates st h d zs"
    using insert_by_sorted[of st h d x ys] ys(3) by blast
  then show ?case using ys(1,2) by simp
qed

lemma dantzig_items:
  "returns_records st (a_data a) rs \<Longrightarrow>
     \<exists>al h' a'. dantzig st rs h a acc = Inr (al, h', a') \<and> a_items a' = a_items a"
proof (induction rs arbitrary: h a acc)
  case Nil
  then show ?case by simp
next
  case (Cons r rs)
  obtain p where p: "st h (AItem r) (a_data a) = Some p"
    using Cons.prems by (auto simp: returns_records_def)
  have rr: "\<And>a'. a_data a' = a_data a \<Longrightarrow> returns_records st (a_data a') rs"
    using Cons.prems by (simp add: returns_records_def)
  show ?case
  proof (cases "js_le (js_sub (Fin (a_capacity a)) (a_solutionCapacity a)) (Fin 0)")
    case True
    then show ?thesis by simp
  next
    case False
    show ?thesis
    proof (cases "js_ge (p_capacity p) (js_sub (Fin (a_capacity a)) (a_solutionCapacity a))")
      case True
      then show ?thesis using False p by (simp add: Let_def)
    next
      case ge: False
      define h2 where "h2 = (h(r := assign set_solutionCapacity (p_capacity p) (h r)))
          (r := assign set_solutionValue (p_payoff p)
             ((h(r := assign set_solutionCapacity (p_capacity p) (h r))) r))"
      define a2 where "a2 = a\<lparr>a_solutionCapacity := js_add (a_solutionCapacity a) (p_capacity p),
          a_solutionPayoff := js_add (a_solutionPayoff a) (p_payoff p)\<rparr>"
      have eq: "dantzig st (r # rs) h a acc = dantzig st rs h2 a2 (acc @ [r])"
        using False ge p by (simp add: Let_def h2_def a2_def)
      have "a_data a2 = a_data a" by (simp add: a2_def)
      from Cons.IH[OF rr[OF this], of h2 "acc @ [r]"] show ?thesis
        unfolding eq by (simp add: a2_def)
    qed
  qed
qed

section \<open>Claims about TSMT$Knapsack\<close>

text \<open>
  Claim C8. When every item has a non-negative integral capacity and a non-negative
  payoff, the backtracking loop of \<open>allocate\<close> ends normally: after \<open>m\<close> iterations, with
  \<open>m\<close> at most the number of items, \<open>curValue\<close> is 0; before each of these iterations
  \<open>curValue\<close> is positive, the row index after \<open>j\<close> iterations is the number of items
  minus \<open>j\<close>, and the column index is never negative.
\<close>

theorem backtracking_terminates:
  assumes "\<forall>r\<in>set items. integral_item (h r)"
  shows "\<exists>m s'. m \<le> length items \<and>
     while_option bt_cond (bt_body (fill_table h items (length items + 1) (C + 1)) items)
       (bt_init h items C) = Some (Inr s') \<and>
     (bt_body (fill_table h items (length items + 1) (C + 1)) items ^^ m) (bt_init h items C) = Inr s' \<and>
     bt_curValue s' = Fin 0 \<and> bt_i s' = length items - m \<and> 0 \<le> bt_capacity s' \<and>
     (\<forall>j<m. \<exists>sj.
        (bt_body (fill_table h items (length items + 1) (C + 1)) items ^^ j) (bt_init h items C) = Inr sj \<and>
        js_gt (bt_curValue sj) (Fin 0) \<and> bt_i sj = length items - j \<and> 0 \<le> bt_capacity sj)"
proof -
  define v where "v = fill_table h items (length items + 1) (C + 1)"
  have its: "\<forall>j<length items. integral_item (h (items ! j))" using assms by simp
  from bt_loop[OF its v_def] obtain m s' c' where
    w: "while_option bt_cond (bt_body v items) (bt_init h items C) = Some (Inr s')"
    and run: "(bt_body v items ^^ m) (bt_init h items C) = Inr s'"
    and cur: "bt_curValue s' = Fin 0" and im: "bt_i s' + m = length items"
    and cap: "bt_capacity s' = real c'"
    and tr: "\<forall>j<m. \<exists>sj. (bt_body v items ^^ j) (bt_init h items C) = Inr sj \<and> bt_cond (Inr sj) \<and>
            bt_i sj + j = length items \<and> 0 \<le> bt_capacity sj"
    by blast
  have tr': "\<forall>j<m. \<exists>sj. (bt_body v items ^^ j) (bt_init h items C) = Inr sj \<and>
        js_gt (bt_curValue sj) (Fin 0) \<and> bt_i sj = length items - j \<and> 0 \<le> bt_capacity sj"
  proof (intro allI impI)
    fix j assume "j < m"
    with tr obtain sj where "(bt_body v items ^^ j) (bt_init h items C) = Inr sj" "bt_cond (Inr sj)"
      "bt_i sj + j = length items" "0 \<le> bt_capacity sj" by blast
    then show "\<exists>sj. (bt_body v items ^^ j) (bt_init h items C) = Inr sj \<and>
        js_gt (bt_curValue sj) (Fin 0) \<and> bt_i sj = length items - j \<and> 0 \<le> bt_capacity sj"
      by (rule_tac x = sj in exI) (simp add: bt_cond_def)
  qed
  have "m \<le> length items" "bt_i s' = length items - m" "0 \<le> bt_capacity s'"
    using im cap by simp_all
  then show ?thesis
    using w run cur tr' unfolding v_def
    by (rule_tac x = m in exI, rule_tac x = s' in exI) simp
qed

theorem backtracking_terminates_witness:
  "list_all (\<lambda>r. integral_item (example_heap r)) example_items \<and>
   (\<exists>m s'. m \<le> length example_items \<and>
     while_option bt_cond (bt_body (fill_table example_heap example_items (length example_items + 1) (10 + 1)) example_items)
       (bt_init example_heap example_items 10) = Some (Inr s') \<and>
     (bt_body (fill_table example_heap example_items (length example_items + 1) (10 + 1)) example_items ^^ m)
       (bt_init example_heap example_items 10) = Inr s' \<and>
     bt_curValue s' = Fin 0 \<and> bt_i s' = length example_items - m \<and> 0 \<le> bt_capacity s' \<and>
     (\<forall>j<m. \<exists>sj.
        (bt_body (fill_table example_heap example_items (length example_items + 1) (10 + 1)) example_items ^^ j)
          (bt_init example_heap example_items 10) = Inr sj \<and>
        js_gt (bt_curValue sj) (Fin 0) \<and> bt_i sj = length example_items - j \<and> 0 \<le> bt_capacity sj))"
proof -
  have hyp: "\<forall>r\<in>set example_items. integral_item (example_heap r)"
    by (simp add: example_items_def example_heap_def heap_of_def item_of_def new_item_def integral_item_def)
  have "list_all (\<lambda>r. integral_item (example_heap r)) example_items"
    using hyp by (simp add: list_all_iff)
  from this backtracking_terminates[OF hyp, of 10] show ?thesis by (rule conjI)
qed

text \<open>
  Claim C6. With at least two items of non-negative integral capacity and a positive
  capacity of the environment, \<open>allocate\<close> returns, and the items it returns are those
  at a strictly decreasing sequence of positions of the item collection.
\<close>

theorem allocate_reverse_insertion_order:
  assumes "2 \<le> length (k_items k)" and "0 < k_capacity k"
    and "\<forall>r\<in>set (k_items k). integral_item (h r)"
  shows "\<exists>al h' k' ps. k_allocate h k = Some (Inr (al, h', k')) \<and>
           al = map ((!) (k_items k)) ps \<and> sorted_wrt (>) ps \<and>
           (\<forall>p\<in>set ps. p < length (k_items k))"
proof -
  define v where "v = fill_table h (k_items k) (length (k_items k) + 1) (k_capacity k + 1)"
  have its: "\<forall>j<length (k_items k). integral_item (h (k_items k ! j))" using assms(3) by simp
  from bt_loop[OF its v_def] obtain s' ps where
    w: "while_option bt_cond (bt_body v (k_items k)) (bt_init h (k_items k) (k_capacity k)) = Some (Inr s')"
    and al: "bt_allocation s' = map ((!) (k_items k)) ps"
    and srt: "sorted_wrt (>) ps" and rng: "\<forall>p\<in>set ps. p < length (k_items k)"
    by blast
  have "k_allocate h k = Some (Inr (bt_allocation s', bt_heap s',
          k\<lparr>k_solutionPayoff := v ! length (k_items k) ! k_capacity k\<rparr>))"
    using assms(1,2) w unfolding v_def by (auto simp: k_allocate_def Let_def)
  then show ?thesis using al srt rng by blast
qed

theorem allocate_reverse_insertion_order_witness:
  "2 \<le> length (k_items (knapsack_of example_items 10)) \<and> 0 < k_capacity (knapsack_of example_items 10) \<and>
   list_all (\<lambda>r. integral_item (example_heap r)) (k_items (knapsack_of example_items 10)) \<and>
   (\<exists>al h' k' ps. k_allocate example_heap (knapsack_of example_items 10) = Some (Inr (al, h', k')) \<and>
      al = map ((!) (k_items (knapsack_of example_items 10))) ps \<and> sorted_wrt (>) ps \<and>
      (\<forall>p\<in>set ps. p < length (k_items (knapsack_of example_items 10))))"
proof -
  have 1: "2 \<le> length (k_items (knapsack_of example_items 10))"
    and 2: "0 < k_capacity (knapsack_of example_items 10)"
    by (simp_all add: knapsack_of_def k_clear_def example_items_def)
  have 3: "\<forall>r\<in>set (k_items (knapsack_of example_items 10)). integral_item (example_heap r)"
    by (simp add: knapsack_of_def k_clear_def example_items_def example_heap_def heap_of_def
        item_of_def new_item_def integral_item_def)
  have 4: "list_all (\<lambda>r. integral_item (example_heap r)) (k_items (knapsack_of example_items 10))"
    using 3 by (simp add: list_all_iff)
  show ?thesis
    using 1 2 4 allocate_reverse_insertion_order[OF 1 2 3] by blast
qed

text \<open>
  Claim C3, at the items of the test "simple problem #1" with capacity 10: \<open>allocate\<close>
  returns the items at positions 3 and 1, whose capacities add up to 7, and the
  allocator's \<open>solutionCapacity\<close> is still 0. No statement of \<open>allocate\<close> assigns
  \<open>_solutionCapacity\<close>.
\<close>

theorem allocate_solutionCapacity_not_updated:
  "case k_allocate (example_heap) (knapsack_of example_items 10) of
     Some (Inr (al, h', k')) \<Rightarrow>
       al = [3, 1] \<and> total_capacity h' example_items al = 7 \<and> k_solutionCapacity k' = 0
   | _ \<Rightarrow> False"
  by code_simp

text \<open>
  Claim C1, at the items (0,5) and (1,10) with capacity 1: \<open>allocate\<close> reports the
  payoff 10 and returns the second item only, while both items together fit the
  capacity and pay 15. The table's column 0 is never written, so an item of capacity 0
  is not counted where the remaining capacity is 0.
\<close>

theorem allocate_zero_capacity_item_suboptimal:
  "case k_allocate (heap_of [item_of 0 5, item_of 1 10]) (knapsack_of [0, 1] 1) of
     Some (Inr (al, h', k')) \<Rightarrow>
       al = [1] \<and> k_solutionPayoff k' = Fin 10 \<and>
       feasible (heap_of [item_of 0 5, item_of 1 10]) [0, 1] 1 [0, 1] \<and>
       total_payoff (heap_of [item_of 0 5, item_of 1 10]) [0, 1] [0, 1] = 15
   | _ \<Rightarrow> False"
  by code_simp

text \<open>The second half of claim C1, the payoff 90 of the test "simple problem #1", holds.\<close>

lemma allocate_example_payoff_90:
  "case k_allocate (example_heap) (knapsack_of example_items 10) of
     Some (Inr (al, h', k')) \<Rightarrow> k_solutionPayoff k' = Fin 90 \<and> al = [3, 1]
   | _ \<Rightarrow> False"
  by code_simp

section \<open>Claims about the mutators\<close>




text \<open>
  What the amended claim C7 leaves out: a value that is not a number but converts to a
  valid one passes the validation and is stored as it is. After \<open>item.capacity = "5"\<close>
  the field holds the string, not the number 5, and after \<open>item.payoff = true\<close> it holds
  the boolean. The binary allocator's capacity mutator goes on to apply \<open>Math.floor\<close>,
  which converts, and stores the number.
\<close>

lemma mutators_store_unconverted:
  "set_capacity (Other ''the string 5'' (Fin 5)) it = Inl (Other ''the string 5'' (Fin 5)) \<and>
   set_payoff (Other ''true'' (Fin 1)) it = Inl (Other ''true'' (Fin 1)) \<and>
   set_solutionCapacity (Other ''the empty array'' (Fin 0)) it = Inl (Other ''the empty array'' (Fin 0)) \<and>
   a_set_capacity (Other ''the empty string'' (Fin 0)) a = Inl (Other ''the empty string'' (Fin 0)) \<and>
   k_set_capacity (Other ''the string 5'' (Fin 5)) k = k\<lparr>k_capacity := 5\<rparr>"
  by (simp add: set_capacity_def set_payoff_def set_solutionCapacity_def a_set_capacity_def
      k_set_capacity_def valid_nonneg_def valid_number_def isNaN_def isFinite_def js_ge_def
      store_def real_of_def)

section \<open>Claims about the strategy and TSMT$ItemAllocation\<close>

text \<open>
  Claim C10. The default strategy's \<open>transform\<close> returns the record of capacity,
  payoff, rate and value for a reference to an item, and no record for \<open>null\<close>,
  \<open>undefined\<close> and any other value; so it returns a record exactly for an item. In
  each case the heap it leaves is the heap it was given.
\<close>

theorem default_transform_record_iff_item:
  "DefaultItemStrategy_transform h (AItem r) d =
     (Some \<lparr>p_capacity = Fin (i_capacity (h r)), p_payoff = Fin (i_payoff (h r)),
            p_rate = js_div (Fin (i_payoff (h r))) (Fin (i_capacity (h r))),
            p_value = js_mul (js_div (Fin (i_solutionCapacity (h r))) (Fin (i_capacity (h r))))
                        (Fin (i_payoff (h r)))\<rparr>, h) \<and>
   DefaultItemStrategy_transform h ANull d = (None, h) \<and>
   DefaultItemStrategy_transform h AUndefined d = (None, h) \<and>
   DefaultItemStrategy_transform h AOther d = (None, h) \<and>
   ((fst (DefaultItemStrategy_transform h v d) \<noteq> None) = (\<exists>r. v = AItem r)) \<and>
   snd (DefaultItemStrategy_transform h v d) = h"
  by (cases v) (simp_all add: DefaultItemStrategy_transform_def)

text \<open>
  Claim C4, at an instance of TSMT$DefaultItemStrategy: the instance exposes
  \<open>transform\<close> through its prototype, \<open>__isValidStrategy\<close> answers false because
  \<open>hasOwnProperty\<close> looks at own properties only, and \<open>addStrategy\<close> leaves the
  allocator without a strategy.
\<close>

theorem addStrategy_rejects_class_instance:
  "exposes_transform (new_DefaultItemStrategy :: unit strategy_value) \<and>
   isValidStrategy (new_DefaultItemStrategy :: unit strategy_value) = Inr False \<and>
   (case addStrategy new_DefaultItemStrategy (a_clear :: unit allocation) of
      Inr a \<Rightarrow> a_strategy a = None
    | Inl e \<Rightarrow> False)"
  by (simp add: new_DefaultItemStrategy_def Object_prototype_def addStrategy_def a_clear_def)

text \<open>
  Claim C5. For an allocator that holds one item, has a positive capacity and works
  with the default strategy, \<open>allocate\<close> returns the item. With \<open>f\<close> the fraction, that is
  1 if the item's capacity fits and the quotient of the allocator's capacity by the
  item's capacity otherwise, the products of \<open>f\<close> with the item's capacity and with its
  payoff are finite numbers; \<open>allocate\<close> writes them to the item's \<open>solutionCapacity\<close>
  and \<open>solutionValue\<close> and sets the allocator's aggregates to the same numbers. The
  quotient and the products are those of the program, rounded to binary64.
\<close>

theorem allocate_single_item:
  assumes items: "a_items a = [r]" and cap: "0 < a_capacity a"
    and st: "a_strategy a = None \<or> a_strategy a = Some default_strategy"
    and it: "valid_item (h r)"
  shows "\<exists>sc sv.
     js_mul (fraction (a_capacity a) (i_capacity (h r))) (Fin (i_capacity (h r))) = Fin sc \<and>
     js_mul (fraction (a_capacity a) (i_capacity (h r))) (Fin (i_payoff (h r))) = Fin sv \<and>
     a_allocate h a =
       Inr ([r],
            h(r := (h r)\<lparr>i_value := sv, i_solutionCapacity := sc\<rparr>),
            a\<lparr>a_strategy := Some default_strategy,
              a_solutionCapacity := Fin sc, a_solutionPayoff := Fin sv\<rparr>)"
proof -
  have sel: "(case a_strategy a of None \<Rightarrow> default_strategy | Some s \<Rightarrow> s) = default_strategy"
    using st by auto
  have c0: "0 \<le> i_capacity (h r)" "i_capacity (h r) \<le> max_double"
    and p0: "0 \<le> i_payoff (h r)" "i_payoff (h r) \<le> max_double"
    using it by (simp_all add: valid_item_def)
  from fraction_product[OF cap c0(1) c0] obtain sc where
    sc: "js_mul (fraction (a_capacity a) (i_capacity (h r))) (Fin (i_capacity (h r))) = Fin sc"
    by blast
  from fraction_product[OF cap c0(1) p0] obtain sv where
    sv: "js_mul (fraction (a_capacity a) (i_capacity (h r))) (Fin (i_payoff (h r))) = Fin sv"
    "0 \<le> sv" by blast
  have "a_allocate h a =
       Inr ([r],
            h(r := assign set_solutionCapacity
                     (js_mul (fraction (a_capacity a) (i_capacity (h r))) (Fin (i_capacity (h r))))
                     (assign set_solutionValue
                        (js_mul (fraction (a_capacity a) (i_capacity (h r))) (Fin (i_payoff (h r))))
                        (h r))),
            a\<lparr>a_strategy := Some default_strategy,
              a_solutionCapacity :=
                js_mul (fraction (a_capacity a) (i_capacity (h r))) (Fin (i_capacity (h r))),
              a_solutionPayoff :=
                js_mul (fraction (a_capacity a) (i_capacity (h r))) (Fin (i_payoff (h r)))\<rparr>)"
    using cap
    by (simp add: a_allocate_def items sel default_strategy_item Let_def fraction_def)
  then have "a_allocate h a =
       Inr ([r],
            h(r := (h r)\<lparr>i_value := sv, i_solutionCapacity := sc\<rparr>),
            a\<lparr>a_strategy := Some default_strategy,
              a_solutionCapacity := Fin sc, a_solutionPayoff := Fin sv\<rparr>)"
    unfolding sc sv(1) assign_solutionValue[OF sv(2)] assign_solutionCapacity by simp
  then show ?thesis using sc sv(1) by blast
qed

text \<open>
  The instance of the claim: one item of capacity 5 and payoff 100 against the
  capacity 2.5 gives \<open>solutionCapacity\<close> 2.5, \<open>solutionValue\<close> 50 and the payoff 50.
\<close>

theorem allocate_single_item_witness:
  "a_items (allocation_of [0] (5 / 2)) = [0] \<and> 0 < a_capacity (allocation_of [0] (5 / 2)) \<and>
   a_strategy (allocation_of [0] (5 / 2)) = None \<and> valid_item (heap_of [item_of 5 100] 0) \<and>
   (case a_allocate (heap_of [item_of 5 100]) (allocation_of [0] (5 / 2)) of
      Inr (al, h', a') \<Rightarrow>
        al = [0] \<and> i_solutionCapacity (h' 0) = 5 / 2 \<and> i_value (h' 0) = 50 \<and>
        a_solutionPayoff a' = Fin 50 \<and> a_solutionCapacity a' = Fin (5 / 2)
    | Inl e \<Rightarrow> False)"
proof -
  have 1: "a_items (allocation_of [0] (5 / 2)) = [0]"
    and 2: "0 < a_capacity (allocation_of [0] (5 / 2))"
    and 3: "a_strategy (allocation_of [0] (5 / 2)) = None"
    by (simp_all add: allocation_of_def a_clear_def)
  have 4: "valid_item (heap_of [item_of 5 100] 0)"
    by (simp add: valid_item_def heap_of_def item_of_def new_item_def max_double_def)
  have c: "i_capacity (heap_of [item_of 5 100] 0) = 5" "i_payoff (heap_of [item_of 5 100] 0) = 100"
    "a_capacity (allocation_of [0] (5 / 2)) = 5 / 2"
    by (simp_all add: heap_of_def item_of_def new_item_def allocation_of_def a_clear_def)
  have 5: "js_mul (fraction (5 / 2) 5) (Fin 5) = Fin (5 / 2)"
    "js_mul (fraction (5 / 2) 5) (Fin 100) = Fin 50"
    by code_simp+
  from allocate_single_item[where h = "heap_of [item_of 5 100]" and r = 0
      and a = "allocation_of [0] (5 / 2)", OF 1 2 disjI1[OF 3] 4]
  obtain sc sv where
    "Fin (5 / 2) = Fin sc" "Fin 50 = Fin sv"
    "a_allocate (heap_of [item_of 5 100]) (allocation_of [0] (5 / 2)) =
       Inr ([0],
            (heap_of [item_of 5 100])(0 := (heap_of [item_of 5 100] 0)\<lparr>i_value := sv, i_solutionCapacity := sc\<rparr>),
            (allocation_of [0] (5 / 2))\<lparr>a_strategy := Some default_strategy,
              a_solutionCapacity := Fin sc, a_solutionPayoff := Fin sv\<rparr>)"
    unfolding c 5 by blast
  then have "case a_allocate (heap_of [item_of 5 100]) (allocation_of [0] (5 / 2)) of
      Inr (al, h', a') \<Rightarrow>
        al = [0] \<and> i_solutionCapacity (h' 0) = 5 / 2 \<and> i_value (h' 0) = 50 \<and>
        a_solutionPayoff a' = Fin 50 \<and> a_solutionCapacity a' = Fin (5 / 2)
    | Inl e \<Rightarrow> False"
    by simp
  with 1 2 3 4 show ?thesis by blast
qed

text \<open>
  The products are rounded as the program rounds them: one item of capacity 49 and
  payoff 100 against the capacity 1 gives the \<open>solutionCapacity\<close> 0.9999999999999999,
  which is \<open>1 - 2^(-53)\<close>, and the \<open>solutionValue\<close> 2.0408163265306123, which is
  4595509823847445 over \<open>2^51\<close>; one item of capacity 187 against the capacity 3 gives
  3.0000000000000004, which is \<open>3 + 2^(-51)\<close> and exceeds the capacity.
\<close>

lemma allocate_single_item_rounded:
  "(case a_allocate (heap_of [item_of 49 100]) (allocation_of [0] 1) of
      Inr (al, h', a') \<Rightarrow>
        i_solutionCapacity (h' 0) = 1 - 1 / 2 ^ 53 \<and> a_solutionCapacity a' = Fin (1 - 1 / 2 ^ 53) \<and>
        i_value (h' 0) = 4595509823847445 / 2 ^ 51 \<and>
        a_solutionPayoff a' = Fin (4595509823847445 / 2 ^ 51)
    | Inl e \<Rightarrow> False) \<and>
   (case a_allocate (heap_of [item_of 187 100]) (allocation_of [0] 3) of
      Inr (al, h', a') \<Rightarrow>
        i_solutionCapacity (h' 0) = 3 + 1 / 2 ^ 51 \<and> a_solutionCapacity a' = Fin (3 + 1 / 2 ^ 51)
    | Inl e \<Rightarrow> False)"
  by code_simp

text \<open>
  Claim C2, at the items (5,100) and (8,150) with capacity 8: two calls of \<open>allocate\<close>
  with nothing changed in between return the same sequence and the same
  \<open>solutionCapacity\<close>, but the payoff is 156.25 after the first call and 312.5 after
  the second. The general case resets \<open>_solutionCapacity\<close> and never \<open>_solutionPayoff\<close>,
  to which the loop adds.
\<close>

theorem allocate_twice_doubles_payoff:
  "case a_allocate (heap_of [item_of 5 100, item_of 8 150]) (allocation_of [0, 1] 8) of
     Inr (al1, h1, a1) \<Rightarrow>
       (case a_allocate h1 a1 of
          Inr (al2, h2, a2) \<Rightarrow>
            al1 = [0, 1] \<and> al2 = [0, 1] \<and>
            a_solutionPayoff a1 = Fin (625 / 4) \<and> a_solutionPayoff a2 = Fin (625 / 2) \<and>
            a_solutionCapacity a1 = Fin 8 \<and> a_solutionCapacity a2 = Fin 8
        | Inl e \<Rightarrow> False)
   | Inl e \<Rightarrow> False"
  by code_simp

text \<open>
  Claim C9 as stated fails where a rate is NaN: with the items (1,1), (0,0) and (1,2)
  and the default strategy the rates are 1, NaN and 2, the comparator answers 0 for
  every pair with the second item, and the collection stays in the order in which the
  rate 1 comes before the rate 2.
\<close>

theorem allocate_nan_rate_not_sorted:
  "case a_allocate (heap_of [item_of 1 1, item_of 0 0, item_of 1 2]) (allocation_of [0, 1, 2] 8) of
     Inr (al, h', a') \<Rightarrow>
       a_items a' = [0, 1, 2] \<and>
       rate_of default_strategy (heap_of [item_of 1 1, item_of 0 0, item_of 1 2]) None 0 = Fin 1 \<and>
       rate_of default_strategy (heap_of [item_of 1 1, item_of 0 0, item_of 1 2]) None 1 = NaN \<and>
       rate_of default_strategy (heap_of [item_of 1 1, item_of 0 0, item_of 1 2]) None 2 = Fin 2 \<and>
       \<not> descending_rates default_strategy (heap_of [item_of 1 1, item_of 0 0, item_of 1 2]) None
           (a_items a')
   | Inl e \<Rightarrow> False"
  by code_simp

text \<open>
  Claim C9, amended. For an allocator with at least two items and a positive capacity,
  whose strategy returns a record for every item and gives no item the rate NaN,
  \<open>allocate\<close> returns and leaves the item collection sorted: the collection of the
  allocator it returns is the result of the sort, holds the same items as often as
  before, has the same length and is in descending order of the rates. The operations
  that follow work on this allocator: \<open>removeItem\<close> scans the sorted collection.
\<close>

theorem allocate_sorts_items:
  assumes n: "2 \<le> length (a_items a)" and cap: "0 < a_capacity a"
    and rec: "returns_records (strategy_in_use a) (a_data a) (a_items a)"
    and num: "\<forall>r\<in>set (a_items a). rate_of (strategy_in_use a) h (a_data a) r \<noteq> NaN"
  shows "\<exists>al h' a'. a_allocate h a = Inr (al, h', a') \<and>
           sort_by (compare_rate (strategy_in_use a) h (a_data a)) (a_items a) = Inr (a_items a') \<and>
           mset (a_items a') = mset (a_items a) \<and> length (a_items a') = length (a_items a) \<and>
           descending_rates (strategy_in_use a) h (a_data a) (a_items a') \<and>
           a_items (a_removeItem v a') = splice_first v (a_items a')"
proof -
  define st where "st = strategy_in_use a"
  from sort_by_sorted[of "a_items a" st h "a_data a"] num obtain ys where
    ys: "sort_by (compare_rate st h (a_data a)) (a_items a) = Inr ys" "mset ys = mset (a_items a)"
    "descending_rates st h (a_data a) ys"
    unfolding st_def by blast
  define a2 where "a2 = a\<lparr>a_strategy := Some st, a_items := ys, a_solutionCapacity := Fin 0\<rparr>"
  have "set ys = set (a_items a)" using ys(2) by (metis set_mset_mset)
  then have "returns_records st (a_data a2) ys"
    using rec by (simp add: returns_records_def st_def a2_def)
  from dantzig_items[OF this, of h "[]"] obtain al h' a' where
    d: "dantzig st ys h a2 [] = Inr (al, h', a')" "a_items a' = a_items a2" by blast
  have ne: "a_items a \<noteq> []" "length (a_items a) \<noteq> Suc 0" using n by auto
  have "a_allocate h a = dantzig st ys h a2 []"
    using ne cap ys(1)
    by (simp add: a_allocate_def Let_def st_def[unfolded strategy_in_use_def, symmetric] a2_def)
  moreover have "length ys = length (a_items a)" using ys(2) by (metis size_mset)
  ultimately show ?thesis
    using d ys unfolding st_def[symmetric]
    by (rule_tac x = al in exI, rule_tac x = h' in exI, rule_tac x = a' in exI)
       (simp add: a2_def a_removeItem_def)
qed

theorem allocate_sorts_items_witness:
  "2 \<le> length (a_items (allocation_of [1, 0] 8)) \<and> 0 < a_capacity (allocation_of [1, 0] 8) \<and>
   returns_records (strategy_in_use (allocation_of [1, 0] 8)) (a_data (allocation_of [1, 0] 8))
     (a_items (allocation_of [1, 0] 8)) \<and>
   list_all (\<lambda>r. rate_of (strategy_in_use (allocation_of [1, 0] 8))
       (heap_of [item_of 5 100, item_of 8 150]) (a_data (allocation_of [1, 0] 8)) r \<noteq> NaN)
     (a_items (allocation_of [1, 0] 8)) \<and>
   (\<exists>al h' a'. a_allocate (heap_of [item_of 5 100, item_of 8 150]) (allocation_of [1, 0] 8) = Inr (al, h', a') \<and>
      a_items a' = [0, 1] \<and> a_items (a_removeItem (AItem 0) a') = [1])"
proof -
  have 1: "2 \<le> length (a_items (allocation_of [1, 0] 8))"
    and 2: "0 < a_capacity (allocation_of [1, 0] 8)"
    by (simp_all add: allocation_of_def a_clear_def)
  have 3: "returns_records (strategy_in_use (allocation_of [1, 0] 8)) (a_data (allocation_of [1, 0] 8))
     (a_items (allocation_of [1, 0] 8))"
    by (simp add: returns_records_def strategy_in_use_def allocation_of_def a_clear_def
        default_strategy_item)
  have rates: "binary64 20 = Fin 20" "binary64 (75 / 4) = Fin (75 / 4)"
    by code_simp+
  have 4: "\<forall>r\<in>set (a_items (allocation_of [1, 0] 8)).
      rate_of (strategy_in_use (allocation_of [1, 0] 8))
       (heap_of [item_of 5 100, item_of 8 150]) (a_data (allocation_of [1, 0] 8)) r \<noteq> NaN"
    by (simp add: strategy_in_use_def allocation_of_def a_clear_def rate_of_def
        default_strategy_item heap_of_def item_of_def new_item_def rates)
  have 5: "list_all (\<lambda>r. rate_of (strategy_in_use (allocation_of [1, 0] 8))
       (heap_of [item_of 5 100, item_of 8 150]) (a_data (allocation_of [1, 0] 8)) r \<noteq> NaN)
     (a_items (allocation_of [1, 0] 8))"
    using 4 by (simp add: list_all_iff)
  have s: "sort_by (compare_rate (strategy_in_use (allocation_of [1, 0] 8))
        (heap_of [item_of 5 100, item_of 8 150]) (a_data (allocation_of [1, 0] 8)))
      (a_items (allocation_of [1, 0] 8)) = Inr [0, 1]"
    by (simp add: strategy_in_use_def allocation_of_def a_clear_def compare_rate_def
        default_strategy_item heap_of_def item_of_def new_item_def js_gt_def rates)
  from allocate_sorts_items[OF 1 2 3 4, of "AItem 0"] obtain al h' a' where
    A: "a_allocate (heap_of [item_of 5 100, item_of 8 150]) (allocation_of [1, 0] 8) = Inr (al, h', a')"
    and B: "sort_by (compare_rate (strategy_in_use (allocation_of [1, 0] 8))
        (heap_of [item_of 5 100, item_of 8 150]) (a_data (allocation_of [1, 0] 8)))
      (a_items (allocation_of [1, 0] 8)) = Inr (a_items a')"
    and C: "a_items (a_removeItem (AItem 0) a') = splice_first (AItem 0) (a_items a')"
    by blast
  have D: "a_items a' = [0, 1]" using B s by simp
  have E: "a_items (a_removeItem (AItem 0) a') = [1]" using C D by simp
  have "\<exists>al h' a'. a_allocate (heap_of [item_of 5 100, item_of 8 150]) (allocation_of [1, 0] 8) = Inr (al, h', a') \<and>
      a_items a' = [0, 1] \<and> a_items (a_removeItem (AItem 0) a') = [1]"
    using A D E by blast
  with 1 2 3 5 show ?thesis by blast
qed

end
